theory Spec2Isabelle
  imports Complex_Main "HOL-Library.AList" "HOL-Library.Sublist"
begin

section \<open>latex2pdf.py: the data model\<close>

subsection \<open>Characters and small string functions of Python\<close>

text \<open>
  A Python string is a \<^typ>\<open>string\<close>; a \<^typ>\<open>char\<close> stands for a code point below 256.
  The two characters that cannot be written inside a literal get a name.
\<close>

definition newline :: char where
  "newline = CHR 0x0A"

definition bslash :: char where
  "bslash = CHR 0x5C"

text \<open>\<open>str.isspace\<close> on code points below 256; it is also what \<open>\s\<close> matches and what
  \<open>str.strip()\<close> removes.\<close>

definition isspace :: "char \<Rightarrow> bool" where
  "isspace c = (c \<in> set [CHR 0x09, CHR 0x0A, CHR 0x0B, CHR 0x0C, CHR 0x0D, CHR 0x1C, CHR 0x1D,
                          CHR 0x1E, CHR 0x1F, CHR 0x20, CHR 0x85, CHR 0xA0])"

text \<open>\<open>s.strip()\<close> and \<open>s.strip("\n")\<close>.\<close>

definition strip :: "string \<Rightarrow> string" where
  "strip s = rev (dropWhile isspace (rev (dropWhile isspace s)))"

definition strip_nl :: "string \<Rightarrow> string" where
  "strip_nl s = rev (dropWhile (\<lambda>c. c = newline) (rev (dropWhile (\<lambda>c. c = newline) s)))"

text \<open>\<open>s.split(sep)\<close> for a one-character separator: never an empty list.\<close>

fun split_on :: "char \<Rightarrow> string \<Rightarrow> string list" where
  "split_on sep [] = [[]]"
| "split_on sep (c # cs) =
     (if c = sep then [] # split_on sep cs
      else (case split_on sep cs of
              w # ws \<Rightarrow> (c # w) # ws
            | [] \<Rightarrow> [[c]]))"

text \<open>\<open>s.replace(old, new)\<close> for a non-empty \<open>old\<close>: the occurrences are replaced from
  the left, and the scan goes on after each one.\<close>

fun replace :: "string \<Rightarrow> string \<Rightarrow> string \<Rightarrow> string" where
  "replace old new [] = []"
| "replace old new (c # cs) =
     (if old \<noteq> [] \<and> prefix old (c # cs)
      then new @ replace old new (drop (length old) (c # cs))
      else c # replace old new cs)"

subsection \<open>Timestamps\<close>

text \<open>
  \<open>os.path.getmtime\<close> returns a float that is never NaN, and the script adds the two
  infinities \<open>-float("inf")\<close> and \<open>float("inf")\<close>. Only comparisons of these values are
  made, so a timestamp is a real number or one of the infinities, in Python's order.
\<close>

datatype mtime = NegInf | Fin real | PosInf

instantiation mtime :: linorder
begin

fun less_eq_mtime :: "mtime \<Rightarrow> mtime \<Rightarrow> bool" where
  "less_eq_mtime NegInf _ = True"
| "less_eq_mtime (Fin a) NegInf = False"
| "less_eq_mtime (Fin a) (Fin b) = (a \<le> b)"
| "less_eq_mtime (Fin a) PosInf = True"
| "less_eq_mtime PosInf PosInf = True"
| "less_eq_mtime PosInf _ = False"

definition less_mtime :: "mtime \<Rightarrow> mtime \<Rightarrow> bool" where
  "less_mtime a b = (a \<le> b \<and> \<not> b \<le> a)"

instance
proof
  fix x y z :: mtime
  show "(x < y) = (x \<le> y \<and> \<not> y \<le> x)" by (simp add: less_mtime_def)
  show "x \<le> x" by (cases x) simp_all
  show "x \<le> y \<Longrightarrow> y \<le> z \<Longrightarrow> x \<le> z" by (cases x; cases y; cases z) simp_all
  show "x \<le> y \<Longrightarrow> y \<le> x \<Longrightarrow> x = y" by (cases x; cases y) simp_all
  show "x \<le> y \<or> y \<le> x" by (cases x; cases y) auto
qed

end

subsection \<open>The file system and the path functions\<close>

text \<open>
  A regular file has a modification time and its text, as the list of lines that
  iterating over the open file yields (each line with its final newline, the last one
  possibly without). The file system maps a path to the regular file there;
  \<open>os.path.isfile\<close> is \<open>fs f \<noteq> None\<close>.
\<close>

record regfile =
  modified :: real
  content :: "string list"

type_synonym fs = "string \<Rightarrow> regfile option"

text \<open>
  \<open>os.path.join(pdir, f)\<close>, \<open>os.path.normpath(os.path.join(pdir, f))\<close>,
  \<open>os.path.relpath(f, pdir)\<close> and the MD5 hex digest of a file's text are functions of
  Python's library; the model takes them as given.
\<close>

record oslib =
  pathjoin :: "string \<Rightarrow> string \<Rightarrow> string"
  normjoin :: "string \<Rightarrow> string \<Rightarrow> string"
  relpath_of :: "string \<Rightarrow> string \<Rightarrow> string"
  md5hex :: "string list \<Rightarrow> string"

text \<open>\<open>getmtime(f, na)\<close>: the modification time, or \<open>na\<close> when \<open>os.path.getmtime\<close> raises
  \<open>OSError\<close>.\<close>

definition getmtime :: "fs \<Rightarrow> string \<Rightarrow> mtime \<Rightarrow> mtime" where
  "getmtime fs f na = (case fs f of Some x \<Rightarrow> Fin (modified x) | None \<Rightarrow> na)"

text \<open>\<open>md5sum(filename)\<close>, for a file that exists.\<close>

definition md5sum :: "oslib \<Rightarrow> regfile \<Rightarrow> string" where
  "md5sum os x = md5hex os (content x)"

text \<open>\<open>getfullpaths(files, pdir, empty)\<close>.\<close>

definition getfullpaths :: "oslib \<Rightarrow> string list \<Rightarrow> string \<Rightarrow> bool \<Rightarrow> string list" where
  "getfullpaths os files pdir empty' =
     (let minlen = (if empty' then 0 else 1 :: nat)
      in map (\<lambda>f. normjoin os pdir (strip f)) (filter (\<lambda>f. length f \<ge> minlen) files))"

text \<open>\<open>safemax(x, empty)\<close> and \<open>safemin(x, empty)\<close>.\<close>

definition safemax :: "mtime list \<Rightarrow> mtime \<Rightarrow> mtime" where
  "safemax x empty' = (if length x = 0 then empty' else fold max (tl x) (hd x))"

definition safemin :: "mtime list \<Rightarrow> mtime \<Rightarrow> mtime" where
  "safemin x empty' = (if length x = 0 then empty' else fold min (tl x) (hd x))"

subsection \<open>Snapshots of auxiliary files\<close>

record AuxFile =
  relpath :: string
  exists :: bool
  timestamp :: mtime
  bibdata :: "string list"
  md5 :: "string option"

text \<open>A Python dict keeps its keys in insertion order; assigning to a key that is present
  keeps its place. That is an association list with \<^const>\<open>AList.update\<close> and
  \<^const>\<open>map_of\<close>.\<close>

type_synonym 'v dict = "(string \<times> 'v) list"

text \<open>
  \<open>getbibdata(filename)\<close>, on the lines of the file. The pattern
  \<open>\\bibdata\{(.*)\}\<close> is matched at the start of a line; the greedy group runs to the
  last closing brace before the newline.
\<close>

definition bibdata_match :: "string \<Rightarrow> string option" where
  "bibdata_match line =
     (if prefix (bslash # ''bibdata{'') line
      then (let p = takeWhile (\<lambda>c. c \<noteq> newline) (drop 9 line)
            in if CHR ''}'' \<in> set p
               then Some (rev (tl (dropWhile (\<lambda>c. c \<noteq> CHR ''}'') (rev p))))
               else None)
      else None)"

definition getbibdata :: "string list \<Rightarrow> string list" where
  "getbibdata lines =
     concat (map (\<lambda>line. case bibdata_match line of
                            None \<Rightarrow> []
                          | Some g \<Rightarrow> map (\<lambda>b. strip b @ ''.bib'') (split_on (CHR '','') g))
                 lines)"

text \<open>
  \<open>getauxinfo(files, pdir, md5, ext)\<close>, called with a list of files. The local variable
  \<open>md5\<close> starts as the flag the caller passed and is assigned in the loop body, so it
  holds a bool, \<open>None\<close> or a digest; the conditional expression tests its truth value.
\<close>

datatype md5var = Flag bool | Sum "string option"

fun truthy :: "md5var \<Rightarrow> bool" where
  "truthy (Flag b) = b"
| "truthy (Sum None) = False"
| "truthy (Sum (Some s)) = (s \<noteq> [])"

definition auxinfo_step :: "oslib \<Rightarrow> fs \<Rightarrow> string \<Rightarrow> string \<Rightarrow> md5var \<times> AuxFile dict \<Rightarrow> md5var \<times> AuxFile dict" where
  "auxinfo_step os fs pdir f st =
     (let md5v = fst st; auxinfo = snd st; rel = relpath_of os f pdir
      in case fs f of
           Some x \<Rightarrow>
             (let d = (if truthy md5v then Some (md5sum os x) else None)
              in (Sum d,
                  AList.update f \<lparr>relpath = rel, exists = True, timestamp = Fin (modified x),
                                  bibdata = getbibdata (content x), md5 = d\<rparr> auxinfo))
         | None \<Rightarrow>
             (Sum None,
              AList.update f \<lparr>relpath = rel, exists = False, timestamp = NegInf,
                              bibdata = [], md5 = None\<rparr> auxinfo))"

definition getauxinfo :: "oslib \<Rightarrow> fs \<Rightarrow> string list \<Rightarrow> string \<Rightarrow> bool \<Rightarrow> string \<Rightarrow> AuxFile dict" where
  "getauxinfo os fs files pdir md5flag ext =
     snd (fold (auxinfo_step os fs pdir)
               (filter (\<lambda>f. suffix ext f) (getfullpaths os files pdir False))
               (Flag md5flag, []))"

text \<open>\<open>getmodifiedaux(old, new, md5)\<close>.\<close>

definition ischanged :: "AuxFile dict \<Rightarrow> bool \<Rightarrow> string \<Rightarrow> AuxFile \<Rightarrow> bool" where
  "ischanged old md5flag f aux =
     (case map_of old f of
        None \<Rightarrow> True
      | Some prev \<Rightarrow> timestamp aux > timestamp prev \<or> (md5flag \<and> md5 aux \<noteq> md5 prev))"

definition getmodifiedaux :: "AuxFile dict \<Rightarrow> AuxFile dict \<Rightarrow> bool \<Rightarrow> AuxFile dict" where
  "getmodifiedaux old new md5flag =
     fold (\<lambda>(f, aux) changed. if ischanged old md5flag f aux then AList.update f aux changed
                               else changed)
          new []"

subsection \<open>Staleness of the bibliography and of an index\<close>

text \<open>
  \<open>kpsewhich(biblist, cwd, env)\<close>: the external program prints one path per line; what
  it prints for a list of names is the parameter \<open>kpse\<close>.
\<close>

definition kpsewhich :: "oslib \<Rightarrow> (string list \<Rightarrow> string) \<Rightarrow> string list \<Rightarrow> string \<Rightarrow> string list" where
  "kpsewhich os kpse biblist cwd = getfullpaths os (split_on newline (kpse biblist)) cwd False"

text \<open>
  \<open>re.sub(".aux$", ".bbl", f)\<close> and \<open>re.sub("\\.aux$", ".blg", f)\<close>. The dollar
  matches at the end of the string or before a newline that ends it, so there is at most
  one match; the unescaped dot matches any character but a newline, the escaped one only
  a dot. \<open>dot\<close> says which characters may stand before \<open>aux\<close>.
\<close>

definition dotaux_at_end :: "(char \<Rightarrow> bool) \<Rightarrow> string \<Rightarrow> bool" where
  "dotaux_at_end dot s = (length s \<ge> 4 \<and> suffix ''aux'' s \<and> dot (s ! (length s - 4)))"

definition sub_aux_end :: "(char \<Rightarrow> bool) \<Rightarrow> string \<Rightarrow> string \<Rightarrow> string" where
  "sub_aux_end dot repl f =
     (if dotaux_at_end dot f then take (length f - 4) f @ repl
      else if f \<noteq> [] \<and> last f = newline \<and> dotaux_at_end dot (butlast f)
           then take (length f - 5) f @ repl @ [newline]
           else f)"

definition sub_aux_bbl :: "string \<Rightarrow> string" where
  "sub_aux_bbl f = sub_aux_end (\<lambda>c. c \<noteq> newline) ''.bbl'' f"

definition sub_aux_blg :: "string \<Rightarrow> string" where
  "sub_aux_blg f = sub_aux_end (\<lambda>c. c = CHR ''.'') ''.blg'' f"

text \<open>\<open>biboutofdate(auxinfo, pdir, includeblx, env)\<close>. Its first lines collect the
  bibliography names of all snapshots, without the \<open>-blx.bib\<close> ones unless
  \<open>includeblx\<close>.\<close>

definition bibnames :: "AuxFile dict \<Rightarrow> bool \<Rightarrow> string list" where
  "bibnames auxinfo includeblx =
     (let bib = concat (map (\<lambda>(f, aux). bibdata aux) auxinfo)
      in if \<not> includeblx then filter (\<lambda>b. \<not> suffix ''-blx.bib'' b) bib else bib)"

definition biboutofdate :: "oslib \<Rightarrow> (string list \<Rightarrow> string) \<Rightarrow> fs \<Rightarrow> AuxFile dict \<Rightarrow> string \<Rightarrow> bool \<Rightarrow> bool \<times> string list" where
  "biboutofdate os kpse fs auxinfo pdir includeblx =
     (let bib = bibnames auxinfo includeblx
      in if length bib = 0 then (False, [])
         else (let bibfull = kpsewhich os kpse bib pdir;
                   bibtimes = map (\<lambda>f. getmtime fs f NegInf) bibfull;
                   newestbib = safemax bibtimes NegInf;
                   bblfull = map (\<lambda>(f, aux). sub_aux_bbl f) auxinfo;
                   bbltimes = map (\<lambda>f. getmtime fs f PosInf) bblfull;
                   oldestbbl = safemin bbltimes PosInf
               in (newestbib \<ge> oldestbbl, bibfull)))"

text \<open>The test the main loop makes for one index file: the time of the source against the
  time of the compiled index, with \<open>na=float("inf")\<close> for the index.\<close>

definition index_outofdate :: "fs \<Rightarrow> string \<Rightarrow> string \<Rightarrow> bool" where
  "index_outofdate fs texfile indexfile =
     (getmtime fs texfile NegInf \<ge> getmtime fs indexfile PosInf)"

subsection \<open>Errors\<close>

text \<open>
  The exceptions the script raises or lets through, as values. Three are the
  \<open>RuntimeError\<close>s of the script, kept apart with the values their messages hold:
  \<open>CorruptIndex i file\<close> is "No citation index entry on line i of file",
  \<open>BibtexLogError blg\<close> is "Fatal bibtex error searching file blg", and
  \<open>ErrorsPersist n\<close> is "Errors persist after n runs".
\<close>

datatype error = IOError | KeyError | ValueError | NameError
  | CorruptIndex nat string | BibtexLogError string | ErrorsPersist int

subsection \<open>The class ErrorChecker\<close>

text \<open>\<open>sep.join(xs)\<close>.\<close>

fun join :: "string \<Rightarrow> string list \<Rightarrow> string" where
  "join sep [] = []"
| "join sep [x] = x"
| "join sep (x # y # ys) = x @ sep @ join sep (y # ys)"

text \<open>
  The dict of checks is keyed by the name given to \<open>add\<close>, or by the number of checks
  so far when none is given. A check holds the source of its pattern; whether a compiled
  pattern finds a match in a line (\<open>regex.search(line) is not None\<close>) is a function of
  the \<open>re\<close> module, which the model takes as the parameter \<open>re\<close>.
\<close>

datatype ckname = Index nat | Name string

record Check =
  regex :: string
  level :: string
  lines :: int

record ErrorChecker =
  checks :: "(ckname \<times> Check) list"
  defaultlevel :: string

type_synonym re_search = "string \<Rightarrow> string \<Rightarrow> bool"
type_synonym messages = "string \<Rightarrow> string list"

text \<open>\<open>__init__\<close>, \<open>add\<close> (the name is a string or absent) and \<open>change\<close>.\<close>

definition ErrorChecker_init :: "string \<Rightarrow> ErrorChecker" where
  "ErrorChecker_init dl = \<lparr>checks = [], defaultlevel = dl\<rparr>"

definition add :: "ErrorChecker \<Rightarrow> string \<Rightarrow> string option \<Rightarrow> int \<Rightarrow> string option \<Rightarrow> error + ErrorChecker \<times> ckname" where
  "add self rx lv n name =
     (let key = (case name of None \<Rightarrow> Index (length (checks self)) | Some s \<Rightarrow> Name s)
      in if name \<noteq> None \<and> map_of (checks self) key \<noteq> None then Inl ValueError
         else (let lv' = (case lv of None \<Rightarrow> defaultlevel self | Some l \<Rightarrow> l)
               in Inr (self\<lparr>checks := AList.update key \<lparr>regex = rx, level = lv', lines = n\<rparr> (checks self)\<rparr>,
                       key)))"

definition change :: "ErrorChecker \<Rightarrow> ckname \<Rightarrow> string option \<Rightarrow> int option \<Rightarrow> error + ErrorChecker" where
  "change self name lv n =
     (case map_of (checks self) name of
        None \<Rightarrow> Inl KeyError
      | Some dflt \<Rightarrow>
          (let lv' = (case lv of None \<Rightarrow> level dflt | Some l \<Rightarrow> l);
               n' = (case n of None \<Rightarrow> lines dflt | Some k \<Rightarrow> k)
           in Inr (self\<lparr>checks := AList.update name \<lparr>regex = regex dflt, level = lv', lines = n'\<rparr> (checks self)\<rparr>)))"

text \<open>
  \<open>search(logfile)\<close>. The open file is an iterator over its lines, shared by the outer
  \<open>for\<close> loop and by the \<open>next(log, "")\<close> calls that fetch the extra lines of a match:
  \<open>take_lines n\<close> is the inner loop over \<open>range(check.lines - 1)\<close>, which returns the
  stripped lines it fetched and what is left of the iterator; past the end every fetch
  yields the empty string.
\<close>

fun take_lines :: "nat \<Rightarrow> string list \<Rightarrow> string list \<times> string list" where
  "take_lines 0 rest = ([], rest)"
| "take_lines (Suc n) [] = (case take_lines n [] of (m, r) \<Rightarrow> (strip_nl [] # m, r))"
| "take_lines (Suc n) (l # ls) = (case take_lines n ls of (m, r) \<Rightarrow> (strip_nl l # m, r))"

definition check_line :: "re_search \<Rightarrow> string \<Rightarrow> Check \<Rightarrow> string list \<times> messages \<Rightarrow> string list \<times> messages" where
  "check_line re line check st =
     (if re (regex check) line
      then (case take_lines (nat (lines check - 1)) (fst st) of
              (extra, rest') \<Rightarrow>
                (let match = join [newline] (strip_nl line # extra)
                 in (rest', (snd st)(level check := snd st (level check) @ [match]))))
      else st)"

text \<open>The scan ends because a match never puts lines back.\<close>

lemma take_lines_length: "length (snd (take_lines n rest)) \<le> length rest"
  by (induction n rest rule: take_lines.induct) (auto split: prod.splits)

lemma check_line_length: "length (fst (check_line re line c st)) \<le> length (fst st)"
  using take_lines_length [of "nat (lines c - 1)" "fst st"]
  by (auto simp: check_line_def split: prod.splits)

lemma fold_check_line_length:
  "length (fst (fold (check_line re line) cs st)) \<le> length (fst st)"
proof (induction cs arbitrary: st)
  case Nil
  then show ?case by simp
next
  case (Cons c cs)
  have "length (fst (fold (check_line re line) cs (check_line re line c st)))
          \<le> length (fst (check_line re line c st))"
    by (rule Cons.IH)
  also have "\<dots> \<le> length (fst st)" by (rule check_line_length)
  finally show ?case by simp
qed

function scan :: "re_search \<Rightarrow> Check list \<Rightarrow> string list \<Rightarrow> messages \<Rightarrow> messages" where
  "scan re cs [] msgs = msgs"
| "scan re cs (line # rest) msgs =
     (let st = fold (check_line re line) cs (rest, msgs)
      in scan re cs (fst st) (snd st))"
  by pat_completeness auto
termination
proof (relation "measure (\<lambda>(re, cs, rest, msgs). length rest)")
  show "wf (measure (\<lambda>(re, cs, rest, msgs). length rest))" by simp
next
  fix re :: re_search and cs :: "Check list" and line :: string and rest :: "string list"
    and msgs :: messages and st :: "string list \<times> messages"
  assume "st = fold (check_line re line) cs (rest, msgs)"
  then have "length (fst st) \<le> length rest"
    using fold_check_line_length [of re line cs "(rest, msgs)"] by simp
  then show "((re, cs, fst st, snd st), (re, cs, line # rest, msgs))
               \<in> measure (\<lambda>(re, cs, rest, msgs). length rest)"
    by (cases st) simp
qed

definition search :: "re_search \<Rightarrow> ErrorChecker \<Rightarrow> fs \<Rightarrow> string \<Rightarrow> error + messages" where
  "search re self fs logfile =
     (case fs logfile of
        None \<Rightarrow> Inl IOError
      | Some x \<Rightarrow> Inr (scan re (map snd (checks self)) (content x) (\<lambda>lv. [])))"



subsection \<open>The class CitationIndex\<close>

text \<open>
  \<open>purify\<close> ends with \<open>str(filter(self.keep, name)).upper()\<close>. In Python 3 \<open>filter\<close>
  returns an iterator object, and \<open>str\<close> of it is its representation, which names the
  type and the address of the object in lower-case hexadecimal; the address is the
  interpreter's choice and a parameter of the model.
\<close>

definition hexdigit :: "int \<Rightarrow> char" where
  "hexdigit d = ''0123456789abcdef'' ! nat (d mod 16)"

function hex :: "int \<Rightarrow> string" where
  "hex n = (if n < 16 then [hexdigit n] else hex (n div 16) @ [hexdigit n])"
  by pat_completeness auto
termination
  by (relation "measure nat") auto

declare hex.simps [simp del]

datatype pyfilter = FilterObject int "char \<Rightarrow> bool" string

fun str_of_filter :: "pyfilter \<Rightarrow> string" where
  "str_of_filter (FilterObject a f it) = ''<filter object at 0x'' @ hex a @ ''>''"

text \<open>\<open>str.upper()\<close> on ASCII letters; other characters are left as they are.\<close>

definition upper_char :: "char \<Rightarrow> char" where
  "upper_char c =
     (case map_of (zip ''abcdefghijklmnopqrstuvwxyz'' ''ABCDEFGHIJKLMNOPQRSTUVWXYZ'') c of
        Some u \<Rightarrow> u
      | None \<Rightarrow> c)"

definition upper :: "string \<Rightarrow> string" where
  "upper s = map upper_char s"

text \<open>
  \<open>nobracespace\<close>. \<open>self.spacebeforere.sub("{", s)\<close> replaces each run of whitespace
  that a closing brace follows, together with that brace, by an opening brace;
  \<open>self.spaceafterre.sub("}", s)\<close> replaces each opening brace that whitespace follows,
  together with that whitespace, by a closing brace.
\<close>

function sub_spacebefore :: "string \<Rightarrow> string" where
  "sub_spacebefore [] = []"
| "sub_spacebefore (c # cs) =
     (if isspace c \<and> dropWhile isspace cs \<noteq> [] \<and> hd (dropWhile isspace cs) = CHR ''}''
      then CHR ''{'' # sub_spacebefore (tl (dropWhile isspace cs))
      else c # sub_spacebefore cs)"
  by pat_completeness auto
termination
proof (relation "measure length")
  show "wf (measure length)" by simp
next
  fix c :: char and cs :: string
  assume "isspace c \<and> dropWhile isspace cs \<noteq> [] \<and> hd (dropWhile isspace cs) = CHR ''}''"
  then have "length (tl (dropWhile isspace cs)) < length (dropWhile isspace cs)" by simp
  also have "\<dots> \<le> length cs" by (rule length_dropWhile_le)
  finally show "(tl (dropWhile isspace cs), c # cs) \<in> measure length" by simp
next
  fix c :: char and cs :: string
  show "(cs, c # cs) \<in> measure length" by simp
qed

function sub_spaceafter :: "string \<Rightarrow> string" where
  "sub_spaceafter [] = []"
| "sub_spaceafter (c # cs) =
     (if c = CHR ''{'' \<and> cs \<noteq> [] \<and> isspace (hd cs)
      then CHR ''}'' # sub_spaceafter (dropWhile isspace cs)
      else c # sub_spaceafter cs)"
  by pat_completeness auto
termination
proof (relation "measure length")
  show "wf (measure length)" by simp
next
  fix c :: char and cs :: string
  have "length (dropWhile isspace cs) \<le> length cs" by (rule length_dropWhile_le)
  then show "(dropWhile isspace cs, c # cs) \<in> measure length" by simp
next
  fix c :: char and cs :: string
  show "(cs, c # cs) \<in> measure length" by simp
qed

definition nobracespace :: "string \<Rightarrow> string" where
  "nobracespace s = sub_spaceafter (sub_spacebefore s)"

text \<open>\<open>self.tokenre.sub("", name)\<close>: a backslash, one character that is neither a space nor
  an opening brace, and a space if one follows, are deleted.\<close>

fun sub_token :: "string \<Rightarrow> string" where
  "sub_token [] = []"
| "sub_token [c] = [c]"
| "sub_token (c # d # cs) =
     (if c = bslash \<and> d \<noteq> CHR '' '' \<and> d \<noteq> CHR ''{''
      then (case cs of
              [] \<Rightarrow> []
            | e # es \<Rightarrow> if e = CHR '' '' then sub_token es else sub_token (e # es))
      else c # sub_token (d # cs))"

definition keep :: "char \<Rightarrow> bool" where
  "keep s = (s \<in> set (''abcdefghijklmnopqrstuvwxyzABCDEFGHIJKLMNOPQRSTUVWXYZ'' @ ''0123456789'' @ '' ''))"

definition replacements :: "(string \<times> string) list" where
  "replacements =
     [(bslash # ''OE'', ''OE''), (bslash # ''aa'', ''a''), (bslash # ''O'', ''O''),
      (bslash # ''o'', ''o''), (bslash # ''ss'', ''s''), (bslash # ''ae'', ''ae''),
      (bslash # ''AA'', ''A''), (bslash # ''L'', ''L''), (bslash # ''l'', ''l''),
      (bslash # ''oe'', ''oe''), (bslash # ''ae'', ''AE''), (''~'', '' '')]"

definition purify :: "int \<Rightarrow> string \<Rightarrow> string" where
  "purify a name =
     (let name1 = nobracespace name;
          name2 = fold (\<lambda>(old, new) s. replace old new s) replacements name1;
          name3 = sub_token name2;
          name4 = str_of_filter (FilterObject a keep name3)
      in upper name4)"

text \<open>
  \<open>self.entryre.search(line)\<close>. The pattern is the text \<open>\indexentry {{\<close>, a lazy group
  for the author, a closing brace, a backslash and a space, a lazy group for the year, a
  closing and an opening brace, a lazy group for the page, and a closing brace. A lazy
  group takes the fewest characters (none of them a newline) after which the rest of the
  pattern matches: \<open>lazy_until lit k\<close> tries the literal \<open>lit\<close> and the rest \<open>k\<close> of the
  pattern first and takes one more character when they fail. The search returns the
  groups of the leftmost match.
\<close>

fun lazy_until :: "string \<Rightarrow> (string \<Rightarrow> 'a option) \<Rightarrow> string \<Rightarrow> (string \<times> 'a) option" where
  "lazy_until lit k [] =
     (if lit = [] then map_option (Pair []) (k []) else None)"
| "lazy_until lit k (c # cs) =
     (case (if prefix lit (c # cs) then k (drop (length lit) (c # cs)) else None) of
        Some r \<Rightarrow> Some ([], r)
      | None \<Rightarrow>
          if c = newline then None
          else map_option (\<lambda>(g, r). (c # g, r)) (lazy_until lit k cs))"

definition entry_open :: string where
  "entry_open = bslash # ''indexentry {{''"

definition entry_at :: "string \<Rightarrow> (string \<times> string \<times> string) option" where
  "entry_at s =
     (if prefix entry_open s
      then map_option (\<lambda>(author, year, page, u). (author, year, page))
             (lazy_until (''}'' @ [bslash] @ '' '')
                (lazy_until ''}{'' (lazy_until ''}'' (\<lambda>s. Some ())))
                (drop (length entry_open) s))
      else None)"

fun entryre_search :: "string \<Rightarrow> (string \<times> string \<times> string) option" where
  "entryre_search [] = entry_at []"
| "entryre_search (c # cs) =
     (case entry_at (c # cs) of
        Some m \<Rightarrow> Some m
      | None \<Rightarrow> entryre_search cs)"

text \<open>
  \<open>clean(infilename, outfilename)\<close>. The entry written for a matching line; the two calls
  of \<open>purify\<close> for line \<open>i\<close> make the filter objects number \<open>2 * i\<close> and \<open>2 * i + 1\<close>,
  whose addresses \<open>addr\<close> gives.
\<close>

definition entry_of :: "(nat \<Rightarrow> int) \<Rightarrow> nat \<Rightarrow> string \<times> string \<times> string \<Rightarrow> string" where
  "entry_of addr i m =
     (case m of (name, year, page) \<Rightarrow>
        (let nicename = purify (addr (2 * i)) name;
             niceyear = purify (addr (2 * i + 1)) year;
             key = ''{'' @ name @ ''}'' @ [bslash] @ '' '' @ year;
             nicekey = join '' '' [nicename, niceyear]
         in bslash # ''indexentry{'' @ nicekey @ ''@'' @ key @ ''}{'' @ page @ ''}''))"

text \<open>The loop over the lines of the input: the lines written so far, and the error when a
  line has no entry (the \<open>RuntimeError\<close>, with the line number and the file name of its
  message).\<close>

fun clean_loop :: "(nat \<Rightarrow> int) \<Rightarrow> string \<Rightarrow> nat \<Rightarrow> string list \<Rightarrow> string list \<Rightarrow> error option \<times> string list" where
  "clean_loop addr infilename i [] written = (None, written)"
| "clean_loop addr infilename i (line # rest) written =
     (case entryre_search line of
        Some m \<Rightarrow> clean_loop addr infilename (i + 1) rest (written @ [entry_of addr i m @ [newline]])
      | None \<Rightarrow> (Some (CorruptIndex i infilename), written))"

text \<open>
  The files: the input is opened first (\<open>IOError\<close> when it is missing); then the output
  is created or truncated, at the fresh name \<open>tmp\<close> that \<open>NamedTemporaryFile\<close> picks
  when no output name is given; the input is read after that; leaving the \<open>with\<close> block
  closes the output with what was written, also when the error is raised; and only when
  no output name was given and no error was raised is the temporary file renamed over
  the input. \<open>now\<close> is the time of the writes.
\<close>

definition clean :: "(nat \<Rightarrow> int) \<Rightarrow> real \<Rightarrow> string \<Rightarrow> fs \<Rightarrow> string \<Rightarrow> string option \<Rightarrow> error option \<times> fs" where
  "clean addr now tmp fs infilename outfilename =
     (case fs infilename of
        None \<Rightarrow> (Some IOError, fs)
      | Some infile \<Rightarrow>
          (let outname = (case outfilename of None \<Rightarrow> tmp | Some out \<Rightarrow> out);
               fs1 = fs(outname \<mapsto> \<lparr>modified = now, content = []\<rparr>);
               text = (case fs1 infilename of None \<Rightarrow> [] | Some x \<Rightarrow> content x);
               r = clean_loop addr infilename 0 text [];
               fs2 = fs1(outname \<mapsto> \<lparr>modified = now, content = snd r\<rparr>)
           in case fst r of
                Some e \<Rightarrow> (Some e, fs2)
              | None \<Rightarrow>
                  (case outfilename of
                     None \<Rightarrow> (None, (fs2(infilename := fs2 tmp))(tmp := None))
                   | Some out \<Rightarrow> (None, fs2))))"

subsection \<open>The main loop\<close>

text \<open>
  The loop of \<open>main\<close> reads the world between the runs of the external programs. The
  model takes what it reads as given, one \<open>world\<close> for each pass of the loop, and
  follows the script on it; what the script prints is left out, and so is the final
  change of the time of the pdf file. Exceptions are threaded with \<open>and_then\<close>.
\<close>

definition and_then :: "error + 'a \<Rightarrow> ('a \<Rightarrow> error + 'b) \<Rightarrow> error + 'b" where
  "and_then r f = (case r of Inl e \<Rightarrow> Inl e | Inr x \<Rightarrow> f x)"

text \<open>
  The searches of the \<open>re\<close> module that the loop makes, as parameters: whether a
  pattern of a checker finds a match in a line; \<open>auxre.findall(line)\<close> of
  \<open>getauxfromlog\<close>; and the first group of the match, if there is one, of the pattern
  of \<open>getindexfiles\<close> and of the pattern of \<open>checktotalslides\<close>.
\<close>

record relib =
  search_re :: re_search
  auxre_findall :: "string \<Rightarrow> string list"
  indexre_group :: "string \<Rightarrow> string option"
  slidesre_group :: "string \<Rightarrow> string option"

text \<open>The two checkers the module builds when it is loaded, by its calls of \<open>add\<close> in
  order, each with the pattern, the level, the lines and the name it gives.\<close>

definition add_check :: "string \<times> string option \<times> int \<times> string option \<Rightarrow> error + ErrorChecker \<Rightarrow> error + ErrorChecker" where
  "add_check args r =
     (case args of (rx, lv, n, name) \<Rightarrow>
        and_then r (\<lambda>self. and_then (add self rx lv n name) (\<lambda>res. Inr (fst res))))"

definition logchecker :: "error + ErrorChecker" where
  "logchecker =
     fold add_check
       [(''Warning:.*Rerun to get cross'', None, 1, None),
        (''Warning:.*Citation.*may have changed'', None, 1, None),
        (''Warning:.*Citation.*undefined'', None, 1, Some ''undefcite''),
        (''Warning: Reference '' @ [CHR 0x60] @ ''.*'' @ [CHR 0x27] @ '' on page '' @ [bslash]
           @ ''d+ undefined'', None, 1, Some ''undefref''),
        (''Warning:.*There were undefined (references|citations)'', None, 1, Some ''undef''),
        (''No file .*'' @ [bslash] @ ''.(bbl|toc|[aic]nd)'', None, 1, None),
        (''Package rerunfilecheck Warning: File.*has changed'', None, 1, None),
        (''LaTeX Error:'', Some ''fatal'', 1, None),
        (''! Undefined control sequence'', Some ''fatal'', 2, None),
        (''!  ==> Fatal error occurred'', Some ''fatal'', 1, None),
        (''! Missing [{}] inserted'', Some ''fatal'', 5, None),
        (''! Package.*Error'', Some ''fatal'', 1, None)]
       (Inr (ErrorChecker_init ''warning''))"

definition blgchecker :: "error + ErrorChecker" where
  "blgchecker =
     fold add_check
       [(''Repeated entry---line '' @ [bslash] @ ''d* of file'', None, 4, None),
        (''Warning--I didn'' @ [CHR 0x27] @ ''t find a database entry for'', None, 1, None),
        (''I was expecting a .* or a .*---line '' @ [bslash] @ ''d* of file'', None, 5, None),
        (''Warning--entry type for .* isn'' @ [CHR 0x27] @ ''t style-file defined'', None, 2, None),
        (''I couldn'' @ [CHR 0x27] @ ''t open database file'', None, 4, None)]
       (Inr (ErrorChecker_init ''error''))"

text \<open>
  The options of the command line that the loop reads (\<open>errordisplay\<close> is set for the
  display levels \<open>errors\<close> and \<open>all\<close>), with the build directory and the dict
  \<open>extrafile\<close> from an extension to the path of the file with the base name of the
  source.
\<close>

record options =
  paranoid :: bool
  check_all_aux :: bool
  recheck_aux :: bool
  check_blx_timestamps :: bool
  show_cite_errors :: bool
  ignore_cite_errors :: bool
  errordisplay :: bool
  min_runs :: int
  max_runs :: int
  fullbuilddir :: string
  extrafile :: "string \<Rightarrow> string"

text \<open>
  What one pass of the loop reads: the return code of bibtex for an auxiliary file and
  the file system after bibtex; the file system when the index files are treated, with
  the addresses, the clock and the temporary name of \<open>citationindex.clean\<close>; the file
  system and the listing of the build directory just before pdflatex; the return code of
  pdflatex; the file system and the listing after it; and what kpsewhich prints.
\<close>

record world =
  bibtex_code :: "string \<Rightarrow> int"
  fs_bibtex :: fs
  fs_index :: fs
  clean_addr :: "nat \<Rightarrow> int"
  clean_now :: real
  clean_tmp :: string
  fs_old :: fs
  dir_old :: "string list"
  returncode :: int
  fs_new :: fs
  dir_new :: "string list"
  kpse_out :: "string list \<Rightarrow> string"

text \<open>The variables of \<open>main\<close> that live across the passes: \<open>keepgoing\<close>,
  \<open>auxinfo\<close>, \<open>indexfiles\<close>, \<open>beamer_numslides\<close>, the log checker (a module
  global that the last pass changes) and \<open>runcount\<close>, unbound before the first pass.\<close>

record loopvars =
  v_keepgoing :: bool
  v_auxinfo :: "AuxFile dict"
  v_indexfiles :: "(string \<times> string \<times> string) list"
  v_beamer_numslides :: "int option"
  v_logchecker :: ErrorChecker
  v_runcount :: "int option"

text \<open>\<open>getauxfromlog(log, pdir)\<close>: the files found are collected in a set, whose order as
  a list is not fixed by Python; the model lists them by occurrence.\<close>

definition auxfromlog :: "oslib \<Rightarrow> relib \<Rightarrow> fs \<Rightarrow> string list \<Rightarrow> string \<Rightarrow> string list" where
  "auxfromlog os re fs text pdir =
     remdups (filter (\<lambda>a. fs a \<noteq> None)
                (map (\<lambda>a. normjoin os pdir a) (concat (map (auxre_findall re) text))))"

definition getauxfromlog :: "oslib \<Rightarrow> relib \<Rightarrow> fs \<Rightarrow> string \<Rightarrow> string \<Rightarrow> error + string list" where
  "getauxfromlog os re fs logfile pdir =
     (case fs logfile of
        None \<Rightarrow> Inl IOError
      | Some x \<Rightarrow> Inr (auxfromlog os re fs (content x) pdir))"

text \<open>\<open>getindexfiles(logfile)\<close>.\<close>

definition indexes :: "(string \<times> string \<times> string) list" where
  "indexes = [(''idx'', (''subject'', ''ind'')), (''ain'', (''author'', ''and'')),
              (''ctx'', (''citation'', ''cnd''))]"

definition index_line :: "relib \<Rightarrow> string \<Rightarrow> error + (string \<times> string \<times> string) list \<Rightarrow> error + (string \<times> string \<times> string) list" where
  "index_line re line r =
     and_then r (\<lambda>found.
       case indexre_group re line of
         None \<Rightarrow> Inr found
       | Some inext \<Rightarrow>
           (case map_of indexes inext of
              None \<Rightarrow> Inl KeyError
            | Some (name, outext) \<Rightarrow> Inr (AList.update name (inext, outext) found)))"

definition getindexfiles :: "relib \<Rightarrow> fs \<Rightarrow> string \<Rightarrow> error + (string \<times> string \<times> string) list" where
  "getindexfiles re fs logfile =
     (case fs logfile of
        None \<Rightarrow> Inl IOError
      | Some x \<Rightarrow> fold (index_line re) (content x) (Inr []))"

text \<open>\<open>checktotalslides(auxfile)\<close>, with \<open>int\<close> of the decimal digits the pattern matched.\<close>

definition digit_val :: "char \<Rightarrow> int" where
  "digit_val c = int (length (takeWhile (\<lambda>d. d \<noteq> c) ''0123456789''))"

definition int_of_digits :: "string \<Rightarrow> int" where
  "int_of_digits s = foldl (\<lambda>n c. 10 * n + digit_val c) 0 s"

definition checktotalslides :: "relib \<Rightarrow> fs \<Rightarrow> string \<Rightarrow> int option" where
  "checktotalslides re fs auxfile =
     (case fs auxfile of
        None \<Rightarrow> None
      | Some x \<Rightarrow>
          fold (\<lambda>line retval. case slidesre_group re line of
                                Some g \<Rightarrow> Some (int_of_digits g)
                              | None \<Rightarrow> retval)
               (content x) None)"

text \<open>
  The first two loops of a pass run bibtex and the index programs. For the script they
  matter by the exceptions they raise: \<open>errorout\<close> when bibtex failed, errors are
  displayed and the log of bibtex cannot be opened; and the error of
  \<open>citationindex.clean\<close> on the citation index.
\<close>

fun run_bibtex :: "oslib \<Rightarrow> relib \<Rightarrow> options \<Rightarrow> world \<Rightarrow> ErrorChecker \<Rightarrow> AuxFile dict \<Rightarrow> error option" where
  "run_bibtex os re opts w blg [] = None"
| "run_bibtex os re opts w blg ((f, a) # rest) =
     (if length (bibdata a) > 0 \<and> bibtex_code w (relpath a) \<noteq> 0 \<and> errordisplay opts
      then (case search (search_re re) blg (fs_bibtex w)
                   (pathjoin os (fullbuilddir opts) (sub_aux_blg (relpath a))) of
              Inl e \<Rightarrow> Some (BibtexLogError (sub_aux_blg (relpath a)))
            | Inr blgmessages \<Rightarrow> run_bibtex os re opts w blg rest)
      else run_bibtex os re opts w blg rest)"

fun run_indices :: "options \<Rightarrow> world \<Rightarrow> (string \<times> string \<times> string) list \<Rightarrow> error option" where
  "run_indices opts w [] = None"
| "run_indices opts w ((indextype, inext, outext) # rest) =
     (if fs_index w (extrafile opts inext) \<noteq> None \<and> indextype \<noteq> ''author''
         \<and> indextype = ''citation''
      then (case fst (clean (clean_addr w) (clean_now w) (clean_tmp w) (fs_index w)
                        (extrafile opts inext) None) of
              Some e \<Rightarrow> Some e
            | None \<Rightarrow> run_indices opts w rest)
      else run_indices opts w rest)"

text \<open>The snapshot before pdflatex (of the directory listing and the log on the first pass,
  of the files of \<open>auxinfo\<close> later) and the snapshot after it.\<close>

definition old_snapshot :: "oslib \<Rightarrow> relib \<Rightarrow> options \<Rightarrow> world \<Rightarrow> int \<Rightarrow> AuxFile dict \<Rightarrow> AuxFile dict" where
  "old_snapshot os re opts w runcount auxinfo =
     (let auxfiles =
            (if runcount = 1
             then [extrafile opts ''aux''] @ dir_old w
                  @ (case fs_old w (extrafile opts ''log'') of
                       Some x \<Rightarrow> auxfromlog os re (fs_old w) (content x) (fullbuilddir opts)
                     | None \<Rightarrow> [])
             else map fst auxinfo)
      in getauxinfo os (fs_old w) auxfiles (fullbuilddir opts) (paranoid opts) ''.aux'')"

definition new_snapshot :: "oslib \<Rightarrow> relib \<Rightarrow> options \<Rightarrow> world \<Rightarrow> error + AuxFile dict" where
  "new_snapshot os re opts w =
     and_then (getauxfromlog os re (fs_new w) (extrafile opts ''log'') (fullbuilddir opts))
       (\<lambda>fromlog.
          (let auxfiles = [extrafile opts ''aux''] @ fromlog
                          @ (if check_all_aux opts then dir_new w else [])
           in Inr (getauxinfo os (fs_new w) auxfiles (fullbuilddir opts) (paranoid opts) ''.aux'')))"

text \<open>\<open>maxruns\<close>, and the change of the citation rules on the last pass.\<close>

definition maxruns :: "options \<Rightarrow> int" where
  "maxruns opts = max_runs opts + (if paranoid opts then 1 else 0)"

definition final_levels :: "options \<Rightarrow> int \<Rightarrow> ErrorChecker \<Rightarrow> error + ErrorChecker" where
  "final_levels opts runcount lc =
     (if runcount = maxruns opts
      then (let citeerror = (if ignore_cite_errors opts then ''ignore'' else ''error'')
            in fold (\<lambda>k r. and_then r (\<lambda>c. change c (Name k) (Some citeerror) None))
                    [''undef'', ''undefref'', ''undefcite''] (Inr lc))
      else Inr lc)"

text \<open>The checks of the first pass (or of every pass with \<open>recheck_aux\<close>): the
  bibliography and the number of slides.\<close>

definition first_checks :: "oslib \<Rightarrow> relib \<Rightarrow> options \<Rightarrow> world \<Rightarrow> int \<Rightarrow> AuxFile dict \<Rightarrow> int option \<Rightarrow> bool \<Rightarrow> bool \<times> int option" where
  "first_checks os re opts w runcount auxinfo numslides kg =
     (if runcount = 1 \<or> recheck_aux opts
      then (let outofdate = fst (biboutofdate os (kpse_out w) (fs_new w) auxinfo
                                   (fullbuilddir opts) (check_blx_timestamps opts));
                kg1 = (if outofdate then True else kg)
            in if numslides \<noteq> None \<or> recheck_aux opts
               then (let new_numslides = checktotalslides re (fs_new w) (extrafile opts ''aux'')
                     in if new_numslides \<noteq> numslides then (True, new_numslides)
                        else (kg1, numslides))
               else (kg1, numslides))
      else (kg, numslides))"

text \<open>The body of the loop over the changed auxiliary files, and the body of the loop over
  the index files.\<close>

definition aux_check :: "bool \<Rightarrow> AuxFile dict \<Rightarrow> string \<times> AuxFile \<Rightarrow> bool \<Rightarrow> bool" where
  "aux_check par oldauxinfo fa kg =
     (case fa of (f, a) \<Rightarrow>
        (let kg1 = (if length (bibdata a) > 0
                       \<and> (case map_of oldauxinfo f of
                             Some prev \<Rightarrow> bibdata prev \<noteq> bibdata a
                           | None \<Rightarrow> False)
                    then True else kg)
         in if \<not> kg1 \<and> par
            then (case map_of oldauxinfo f of
                    None \<Rightarrow> True
                  | Some prev \<Rightarrow> if md5 prev \<noteq> md5 a then True else kg1)
            else kg1))"

definition index_check :: "options \<Rightarrow> fs \<Rightarrow> string \<times> string \<times> string \<Rightarrow> bool \<Rightarrow> bool" where
  "index_check opts fs entry kg =
     (case entry of (name, inext, ext) \<Rightarrow>
        if index_outofdate fs (extrafile opts ''tex'') (extrafile opts ext) then True else kg)"

text \<open>One pass up to the test of the minimum number of runs: \<open>keepgoing\<close> starts as
  whether pdflatex failed, and every later check can only set it.\<close>

definition observe :: "oslib \<Rightarrow> relib \<Rightarrow> options \<Rightarrow> ErrorChecker \<Rightarrow> world \<Rightarrow> int \<Rightarrow> loopvars \<Rightarrow> error + loopvars" where
  "observe os re opts blg w runcount st =
     (case run_bibtex os re opts w blg (v_auxinfo st) of
        Some e \<Rightarrow> Inl e
      | None \<Rightarrow>
     (case run_indices opts w (v_indexfiles st) of
        Some e \<Rightarrow> Inl e
      | None \<Rightarrow>
     (let oldauxinfo = old_snapshot os re opts w runcount (v_auxinfo st);
          kg1 = (returncode w \<noteq> 0)
      in and_then (final_levels opts runcount (v_logchecker st)) (\<lambda>lc.
         and_then (search (search_re re) lc (fs_new w) (extrafile opts ''log'')) (\<lambda>logmessages.
         (let kg2 = (if list_ex (\<lambda>k. length (logmessages k) > 0) [''warning'', ''error'', ''fatal'']
                     then True else kg1)
          in and_then (new_snapshot os re opts w) (\<lambda>newauxinfo.
             (let auxinfo = getmodifiedaux oldauxinfo newauxinfo (paranoid opts);
                  first = first_checks os re opts w runcount auxinfo (v_beamer_numslides st) kg2
              in and_then (getindexfiles re (fs_new w) (extrafile opts ''log'')) (\<lambda>idx.
                 (let kg4 = fold (aux_check (paranoid opts) oldauxinfo) auxinfo (fst first);
                      kg5 = fold (index_check opts (fs_new w)) idx kg4
                  in Inr \<lparr>v_keepgoing = kg5, v_auxinfo = auxinfo, v_indexfiles = idx,
                           v_beamer_numslides = snd first, v_logchecker = lc,
                           v_runcount = Some runcount\<rparr>))))))))))"

text \<open>The test of the minimum number of runs, the loop with its \<open>break\<close>, the
  variables before the loop, and \<open>main\<close> with its final test.\<close>

definition floor_runs :: "options \<Rightarrow> int \<Rightarrow> loopvars \<Rightarrow> loopvars" where
  "floor_runs opts runcount st =
     (if runcount < min_runs opts then st\<lparr>v_keepgoing := True\<rparr> else st)"

fun iterate :: "oslib \<Rightarrow> relib \<Rightarrow> options \<Rightarrow> ErrorChecker \<Rightarrow> (int \<Rightarrow> world) \<Rightarrow> int list \<Rightarrow> loopvars \<Rightarrow> error + loopvars" where
  "iterate os re opts blg ws [] st = Inr st"
| "iterate os re opts blg ws (runcount # later) st =
     and_then (observe os re opts blg (ws runcount) runcount st) (\<lambda>st1.
       (let st2 = floor_runs opts runcount st1
        in if \<not> v_keepgoing st2 then Inr st2
           else iterate os re opts blg ws later st2))"

definition initial :: "relib \<Rightarrow> options \<Rightarrow> fs \<Rightarrow> error + ErrorChecker \<times> loopvars" where
  "initial re opts fs0 =
     and_then blgchecker (\<lambda>blg.
     and_then logchecker (\<lambda>lc0.
     and_then (change lc0 (Name ''undefcite'')
                 (Some (if show_cite_errors opts then ''error'' else ''warning'')) None) (\<lambda>lc.
       Inr (blg, \<lparr>v_keepgoing = True, v_auxinfo = [], v_indexfiles = [],
                  v_beamer_numslides = checktotalslides re fs0 (extrafile opts ''aux''),
                  v_logchecker = lc, v_runcount = None\<rparr>))))"

definition main :: "oslib \<Rightarrow> relib \<Rightarrow> options \<Rightarrow> fs \<Rightarrow> (int \<Rightarrow> world) \<Rightarrow> error + loopvars" where
  "main os re opts fs0 ws =
     and_then (initial re opts fs0) (\<lambda>start.
     and_then (iterate os re opts (fst start) ws [1..maxruns opts] (snd start)) (\<lambda>st.
       if v_keepgoing st
       then (case v_runcount st of
               None \<Rightarrow> Inl NameError
             | Some n \<Rightarrow> Inl (ErrorsPersist n))
       else Inr st))"

subsection \<open>Example inputs\<close>

text \<open>Library functions for the examples. The paths of the examples are plain, with
  nothing left to normalize: a relative name is put under the directory, and a path under
  the directory is made relative to it. The digest is a stand-in for MD5 that is never
  empty and tells any two texts apart.\<close>

definition posix :: oslib where
  "posix = \<lparr>pathjoin = (\<lambda>pdir f. if prefix ''/'' f then f else pdir @ ''/'' @ f),
            normjoin = (\<lambda>pdir f. if prefix ''/'' f then f else pdir @ ''/'' @ f),
            relpath_of = (\<lambda>f pdir. if prefix (pdir @ ''/'') f then drop (length pdir + 1) f else f),
            md5hex = (\<lambda>text. ''md5:'' @ concat text)\<rparr>"

text \<open>A file with no bytes.\<close>

definition emptyfile :: "real \<Rightarrow> regfile" where
  "emptyfile t = \<lparr>modified = t, content = []\<rparr>"

text \<open>Two snapshots of a directory with one auxiliary file that exists and one that does not.\<close>

definition snap1 :: "AuxFile dict" where
  "snap1 = [(''/d/a.aux'', \<lparr>relpath = ''a.aux'', exists = True, timestamp = Fin 5, bibdata = [''refs.bib''], md5 = Some ''ab''\<rparr>),
            (''/d/b.aux'', \<lparr>relpath = ''b.aux'', exists = False, timestamp = NegInf, bibdata = [], md5 = None\<rparr>)]"

definition snap2 :: "AuxFile dict" where
  "snap2 = [(''/d/a.aux'', \<lparr>relpath = ''a.aux'', exists = True, timestamp = Fin 6, bibdata = [''refs.bib''], md5 = Some ''cd''\<rparr>),
            (''/d/b.aux'', \<lparr>relpath = ''b.aux'', exists = False, timestamp = NegInf, bibdata = [], md5 = None\<rparr>)]"

text \<open>A directory where \<open>b.aux\<close> exists and \<open>a.aux\<close> does not.\<close>

definition fs_c9 :: fs where
  "fs_c9 = [''/d/b.aux'' \<mapsto> emptyfile 7]"

text \<open>One auxiliary file that names \<open>refs.bib\<close>; the bibliography source exists, the
  compiled bibliography \<open>main.bbl\<close> is missing or older.\<close>

definition aux_c1 :: "AuxFile dict" where
  "aux_c1 = [(''/d/main.aux'', \<lparr>relpath = ''main.aux'', exists = True, timestamp = Fin 9,
                                bibdata = [''refs.bib''], md5 = None\<rparr>)]"

definition kpse_c1 :: "string list \<Rightarrow> string" where
  "kpse_c1 names = ''/d/refs.bib'' @ [newline]"

definition fs_nobbl :: fs where
  "fs_nobbl = [''/d/refs.bib'' \<mapsto> emptyfile 3]"

definition fs_oldbbl :: fs where
  "fs_oldbbl = [''/d/refs.bib'' \<mapsto> emptyfile 3, ''/d/main.bbl'' \<mapsto> emptyfile 2]"

text \<open>A source file with its index missing, and with an index of the same time.\<close>

definition fs_noindex :: fs where
  "fs_noindex = [''/d/main.tex'' \<mapsto> emptyfile 5]"

definition fs_sameindex :: fs where
  "fs_sameindex = [''/d/main.tex'' \<mapsto> emptyfile 5, ''/d/main.ind'' \<mapsto> emptyfile 5]"

text \<open>Patterns without special characters are searched as substrings. One rule of the
  script's log checker that captures two lines, and a log where its match repeats.\<close>

definition literal :: re_search where
  "literal pat line = sublist pat line"




text \<open>An index file with one entry, and one with a second line that is no entry; the
  addresses of the filter objects.\<close>

definition smith :: string where
  "smith = bslash # ''indexentry {{Smith}'' @ [bslash] @ '' 2001}{5}\<newline>''"

definition addr0 :: "nat \<Rightarrow> int" where
  "addr0 k = 0x7f3c5b8d2e50"

definition fs_ctx :: fs where
  "fs_ctx = [''/d/main.ctx'' \<mapsto> \<lparr>modified = 1, content = [smith]\<rparr>]"

definition fs_ctx_bad :: fs where
  "fs_ctx_bad = [''/d/main.ctx'' \<mapsto> \<lparr>modified = 1, content = [smith, ''garbage\<newline>'']\<rparr>]"

text \<open>A plain document in \<open>/d\<close>: stand-ins for the searches that are right on the lines
  of the examples, which hold no match of any pattern; a log; and the worlds of two
  passes, in which pdflatex writes the auxiliary file and the log anew.\<close>

definition re_plain :: relib where
  "re_plain = \<lparr>search_re = literal, auxre_findall = (\<lambda>line. []),
               indexre_group = (\<lambda>line. None), slidesre_group = (\<lambda>line. None)\<rparr>"

definition opts_plain :: "int \<Rightarrow> options" where
  "opts_plain minruns =
     \<lparr>paranoid = False, check_all_aux = False, recheck_aux = False,
      check_blx_timestamps = False, show_cite_errors = False, ignore_cite_errors = False,
      errordisplay = True, min_runs = minruns, max_runs = 4, fullbuilddir = ''/d'',
      extrafile = (\<lambda>ext. ''/d/main.'' @ ext)\<rparr>"

definition log_plain :: "string list" where
  "log_plain = [''This is pdfTeX\<newline>'', ''Output written on main.pdf (1 page).\<newline>'']"

definition world_plain :: "fs \<Rightarrow> fs \<Rightarrow> world" where
  "world_plain before after =
     \<lparr>bibtex_code = (\<lambda>aux. 0), fs_bibtex = before, fs_index = before,
      clean_addr = addr0, clean_now = 0, clean_tmp = ''/d/authorindex_k3'',
      fs_old = before, dir_old = [''main.tex'', ''main.aux'', ''main.log''], returncode = 0,
      fs_new = after, dir_new = [''main.tex'', ''main.aux'', ''main.log'', ''main.pdf''],
      kpse_out = (\<lambda>names. [])\<rparr>"

definition fs_tex :: fs where
  "fs_tex = [''/d/main.tex'' \<mapsto> emptyfile 1]"

definition fs_run :: "real \<Rightarrow> string list \<Rightarrow> fs" where
  "fs_run t aux = fs_tex(''/d/main.aux'' \<mapsto> \<lparr>modified = t, content = aux\<rparr>,
                         ''/d/main.log'' \<mapsto> \<lparr>modified = t, content = log_plain\<rparr>)"

definition ws_plain :: "int \<Rightarrow> world" where
  "ws_plain i = (if i = 1 then world_plain fs_tex (fs_run 10 [])
                 else world_plain (fs_run 10 []) (fs_run 20 []))"

definition lc_plain :: ErrorChecker where
  "lc_plain = (case initial re_plain (opts_plain 1) fs_tex of
                 Inr start \<Rightarrow> v_logchecker (snd start)
               | Inl e \<Rightarrow> ErrorChecker_init ''warning'')"

definition blg_plain :: ErrorChecker where
  "blg_plain = (case initial re_plain (opts_plain 1) fs_tex of
                 Inr start \<Rightarrow> fst start
               | Inl e \<Rightarrow> ErrorChecker_init ''error'')"

text \<open>The variables after a first pass of a document with a bibliography, and a second pass
  in which the auxiliary file names another bibliography and has the time \<open>t\<close>.\<close>

definition st_bib :: loopvars where
  "st_bib = \<lparr>v_keepgoing = True,
             v_auxinfo = [(''/d/main.aux'',
                           \<lparr>relpath = ''main.aux'', exists = True, timestamp = Fin 10,
                              bibdata = [''refs.bib''], md5 = None\<rparr>)],
             v_indexfiles = [], v_beamer_numslides = None, v_logchecker = lc_plain,
             v_runcount = Some 1\<rparr>"

definition world_bib :: "real \<Rightarrow> world" where
  "world_bib t = world_plain (fs_run 10 [bslash # ''bibdata{refs}\<newline>''])
                             (fs_run t [bslash # ''bibdata{other}\<newline>''])"

text \<open>The plain document built with the paranoid option and at most three runs asked for, so
  that the loop makes at most four passes. On every pass pdflatex returns zero and writes
  the same clean log, and writes a text into the auxiliary file that differs from the
  text of the pass before.\<close>

definition opts_par :: options where
  "opts_par = (opts_plain 2)\<lparr>paranoid := True, max_runs := 3\<rparr>"

definition aux_par :: "int \<Rightarrow> string list" where
  "aux_par i = [if i mod 2 = 0 then ''% even pass\<newline>'' else ''% odd pass\<newline>'']"

definition ws_par :: "int \<Rightarrow> world" where
  "ws_par i = world_plain (if i = 1 then fs_tex else fs_run (of_int (i - 1)) (aux_par (i - 1)))
                          (fs_run (of_int i) (aux_par i))"

section \<open>Properties\<close>

lemma fold_unchanged:
  "(\<And>x. x \<in> set xs \<Longrightarrow> f x acc = acc) \<Longrightarrow> fold f xs acc = acc"
  by (induction xs) simp_all

subsection \<open>Changed snapshots\<close>

lemma set_update_subset: "set (AList.update k v al) \<subseteq> insert (k, v) (set al)"
  by (induction al) auto

lemma changed_fold_mem:
  "(f, a) \<in> set (fold (\<lambda>(f, aux) changed. if ischanged old m f aux then AList.update f aux changed else changed) new acc)
   \<Longrightarrow> (f, a) \<in> set acc \<or> ((f, a) \<in> set new \<and> ischanged old m f a)"
proof (induction new arbitrary: acc)
  case Nil
  then show ?case by simp
next
  case (Cons x new)
  obtain g b where x: "x = (g, b)" by (cases x)
  show ?case
  proof (cases "ischanged old m g b")
    case True
    with Cons.prems x have "(f, a) \<in> set (fold (\<lambda>(f, aux) changed. if ischanged old m f aux then AList.update f aux changed else changed) new (AList.update g b acc))"
      by simp
    from Cons.IH [OF this] show ?thesis
      using set_update_subset [of g b acc] True x by auto
  next
    case False
    with Cons.prems x have "(f, a) \<in> set (fold (\<lambda>(f, aux) changed. if ischanged old m f aux then AList.update f aux changed else changed) new acc)"
      by simp
    from Cons.IH [OF this] show ?thesis by auto
  qed
qed

lemma ischanged_self:
  "distinct (map fst A) \<Longrightarrow> (f, a) \<in> set A \<Longrightarrow> \<not> ischanged A m f a"
  by (simp add: ischanged_def)

text \<open>
  Claim C10. For a snapshot set \<open>A\<close> (a dict, so its keys are distinct) and either
  setting of the md5 flag, \<open>getmodifiedaux(A, A)\<close> is empty. In general an entry of
  the result is an entry of \<open>new\<close> whose key is absent from \<open>old\<close>, or whose
  timestamp is strictly later than its counterpart's, or, with the flag set, whose
  digest differs from its counterpart's.
\<close>

theorem getmodifiedaux_self_empty:
  assumes "distinct (map fst A)"
  shows "getmodifiedaux A A md5flag = []
       \<and> ((f, a) \<in> set (getmodifiedaux old new md5flag) \<longrightarrow>
            (f, a) \<in> set new \<and>
            (map_of old f = None
             \<or> (\<exists>prev. map_of old f = Some prev
                  \<and> (timestamp prev < timestamp a \<or> (md5flag \<and> md5 a \<noteq> md5 prev)))))"
proof
  have "\<And>x. x \<in> set A \<Longrightarrow>
          (\<lambda>(f, aux) changed. if ischanged A md5flag f aux then AList.update f aux changed else changed) x [] = []"
    using ischanged_self [OF assms] by auto
  then show "getmodifiedaux A A md5flag = []"
    unfolding getmodifiedaux_def by (rule fold_unchanged)
next
  show "(f, a) \<in> set (getmodifiedaux old new md5flag) \<longrightarrow>
          (f, a) \<in> set new \<and>
          (map_of old f = None
           \<or> (\<exists>prev. map_of old f = Some prev
                \<and> (timestamp prev < timestamp a \<or> (md5flag \<and> md5 a \<noteq> md5 prev))))"
  proof
    assume "(f, a) \<in> set (getmodifiedaux old new md5flag)"
    then have "(f, a) \<in> set new \<and> ischanged old md5flag f a"
      unfolding getmodifiedaux_def using changed_fold_mem [of f a old md5flag new "[]"] by simp
    then show "(f, a) \<in> set new \<and>
          (map_of old f = None
           \<or> (\<exists>prev. map_of old f = Some prev
                \<and> (timestamp prev < timestamp a \<or> (md5flag \<and> md5 a \<noteq> md5 prev))))"
      by (auto simp: ischanged_def split: option.splits)
  qed
qed

theorem getmodifiedaux_self_empty_witness:
  "distinct (map fst snap1) \<and> getmodifiedaux snap1 snap1 True = []
   \<and> (''/d/a.aux'', \<lparr>relpath = ''a.aux'', exists = True, timestamp = Fin 6, bibdata = [''refs.bib''], md5 = Some ''cd''\<rparr>) \<in> set (getmodifiedaux snap1 snap2 True)
   \<and> map_of snap1 ''/d/a.aux'' \<noteq> None"
proof -
  have d: "distinct (map fst snap1)" by (simp add: snap1_def)
  have m: "(''/d/a.aux'', \<lparr>relpath = ''a.aux'', exists = True, timestamp = Fin 6, bibdata = [''refs.bib''], md5 = Some ''cd''\<rparr>) \<in> set (getmodifiedaux snap1 snap2 True)"
    by (simp add: getmodifiedaux_def snap1_def snap2_def ischanged_def less_mtime_def)
  show ?thesis
    using d m getmodifiedaux_self_empty [OF d, of True "''/d/a.aux''" "\<lparr>relpath = ''a.aux'', exists = True, timestamp = Fin 6, bibdata = [''refs.bib''], md5 = Some ''cd''\<rparr>" snap1 snap2]
    by (simp add: snap1_def)
qed

subsection \<open>Digests in a snapshot\<close>

text \<open>
  Claim C9 asks that with the md5 flag set every existing file of the snapshot has its
  digest. The loop of \<open>getauxinfo\<close> overwrites its own flag: after a missing file it
  holds \<open>None\<close>, and the next existing file gets no digest. With the missing file
  listed first the existing \<open>b.aux\<close> has \<open>md5 = None\<close>; listed the other way round
  it has its digest.
\<close>

theorem getauxinfo_digest_lost:
  "map_of (getauxinfo posix fs_c9 [''a.aux'', ''b.aux''] ''/d'' True ''.aux'') ''/d/b.aux''
     = Some \<lparr>relpath = ''b.aux'', exists = True, timestamp = Fin 7, bibdata = [], md5 = None\<rparr>
   \<and> map_of (getauxinfo posix fs_c9 [''b.aux'', ''a.aux''] ''/d'' True ''.aux'') ''/d/b.aux''
     = Some \<lparr>relpath = ''b.aux'', exists = True, timestamp = Fin 7, bibdata = [],
             md5 = Some ''md5:''\<rparr>"
  by code_simp

subsection \<open>Staleness\<close>

lemma safemax_ge_iff:
  "m \<le> safemax xs NegInf \<longleftrightarrow> m = NegInf \<or> (\<exists>a \<in> set xs. m \<le> a)"
proof (cases xs)
  case Nil
  then show ?thesis by (cases m) (simp_all add: safemax_def)
next
  case (Cons x ys)
  have "safemax xs NegInf = Max (set xs)"
    using Cons Max.set_eq_fold [of x ys] by (simp add: safemax_def)
  moreover have "m \<le> Max (set xs) \<longleftrightarrow> (\<exists>a \<in> set xs. m \<le> a)"
    using Cons by (intro Max_ge_iff) auto
  moreover have "m = NegInf \<Longrightarrow> \<exists>a \<in> set xs. m \<le> a"
    using Cons by auto
  ultimately show ?thesis by auto
qed

lemma safemin_le_iff:
  "safemin xs PosInf \<le> m \<longleftrightarrow> m = PosInf \<or> (\<exists>a \<in> set xs. a \<le> m)"
proof (cases xs)
  case Nil
  then show ?thesis by (cases m) (simp_all add: safemin_def)
next
  case (Cons x ys)
  have "safemin xs PosInf = Min (set xs)"
    using Cons Min.set_eq_fold [of x ys] by (simp add: safemin_def)
  moreover have "Min (set xs) \<le> m \<longleftrightarrow> (\<exists>a \<in> set xs. a \<le> m)"
    using Cons by (intro Min_le_iff) auto
  moreover have "m = PosInf \<Longrightarrow> \<exists>a \<in> set xs. a \<le> m"
    using Cons by (cases x) auto
  ultimately show ?thesis by auto
qed

lemma getmtime_le_iff:
  "getmtime fs g PosInf \<le> getmtime fs b NegInf
   \<longleftrightarrow> (\<exists>x y. fs b = Some x \<and> fs g = Some y \<and> modified y \<le> modified x)"
  by (auto simp: getmtime_def split: option.splits)

lemma newest_ge_oldest_iff:
  "safemin (map (\<lambda>g. getmtime fs g PosInf) gs) PosInf \<le> safemax (map (\<lambda>b. getmtime fs b NegInf) bibs) NegInf
   \<longleftrightarrow> (\<exists>b \<in> set bibs. \<exists>g \<in> set gs. \<exists>x y. fs b = Some x \<and> fs g = Some y \<and> modified y \<le> modified x)"
proof -
  let ?L = "safemin (map (\<lambda>g. getmtime fs g PosInf) gs) PosInf"
  have np: "?L \<noteq> NegInf"
  proof
    assume "?L = NegInf"
    then have "?L \<le> NegInf" by simp
    then have "\<exists>a \<in> set (map (\<lambda>g. getmtime fs g PosInf) gs). a \<le> NegInf"
      unfolding safemin_le_iff by simp
    then obtain g where "getmtime fs g PosInf \<le> NegInf" by auto
    then show False by (simp add: getmtime_def split: option.splits)
  qed
  have "?L \<le> safemax (map (\<lambda>b. getmtime fs b NegInf) bibs) NegInf
        \<longleftrightarrow> (\<exists>b \<in> set bibs. ?L \<le> getmtime fs b NegInf)"
    unfolding safemax_ge_iff using np by auto
  also have "\<dots> \<longleftrightarrow> (\<exists>b \<in> set bibs. \<exists>g \<in> set gs. getmtime fs g PosInf \<le> getmtime fs b NegInf)"
  proof -
    have "\<And>b. getmtime fs b NegInf \<noteq> PosInf" by (simp add: getmtime_def split: option.splits)
    then show ?thesis unfolding safemin_le_iff by auto
  qed
  finally show ?thesis unfolding getmtime_le_iff by blast
qed

text \<open>
  Claim C1, as the code has it. \<open>biboutofdate\<close> answers true exactly when some
  bibliography name is referenced and some resolved bibliography source that exists is
  at least as new as some compiled bibliography that exists: a missing source counts as
  \<open>-inf\<close> and a missing compiled bibliography as \<open>+inf\<close>, so a missing \<open>.bbl\<close>
  file never makes the answer true by itself, and when every \<open>.bbl\<close> file is missing the
  answer is false. With no bibliography name referenced the answer is false.
\<close>

theorem biboutofdate_iff:
  "(fst (biboutofdate os kpse fs auxinfo pdir includeblx) \<longleftrightarrow>
      bibnames auxinfo includeblx \<noteq> [] \<and>
      (\<exists>b f x y. b \<in> set (kpsewhich os kpse (bibnames auxinfo includeblx) pdir)
                \<and> f \<in> fst ` set auxinfo
                \<and> fs b = Some x \<and> fs (sub_aux_bbl f) = Some y
                \<and> modified y \<le> modified x))
   \<and> ((\<forall>f. f \<in> fst ` set auxinfo \<longrightarrow> fs (sub_aux_bbl f) = None)
        \<longrightarrow> \<not> fst (biboutofdate os kpse fs auxinfo pdir includeblx))"
proof -
  have eq: "fst (biboutofdate os kpse fs auxinfo pdir includeblx) \<longleftrightarrow>
      bibnames auxinfo includeblx \<noteq> [] \<and>
      (\<exists>b f x y. b \<in> set (kpsewhich os kpse (bibnames auxinfo includeblx) pdir)
                \<and> f \<in> fst ` set auxinfo
                \<and> fs b = Some x \<and> fs (sub_aux_bbl f) = Some y
                \<and> modified y \<le> modified x)"
  proof (cases "bibnames auxinfo includeblx = []")
    case True
    then show ?thesis by (simp add: biboutofdate_def)
  next
    case False
    have m: "map (\<lambda>f. getmtime fs f PosInf) (map (\<lambda>(f, aux). sub_aux_bbl f) auxinfo)
           = map (\<lambda>g. getmtime fs g PosInf) (map sub_aux_bbl (map fst auxinfo))"
      by (simp add: case_prod_beta)
    have "fst (biboutofdate os kpse fs auxinfo pdir includeblx) \<longleftrightarrow>
          (\<exists>b \<in> set (kpsewhich os kpse (bibnames auxinfo includeblx) pdir).
             \<exists>g \<in> set (map sub_aux_bbl (map fst auxinfo)).
               \<exists>x y. fs b = Some x \<and> fs g = Some y \<and> modified y \<le> modified x)"
      using False unfolding biboutofdate_def Let_def m
      by (simp only: newest_ge_oldest_iff if_False fst_conv length_0_conv)
    also have "\<dots> \<longleftrightarrow> (\<exists>b f x y. b \<in> set (kpsewhich os kpse (bibnames auxinfo includeblx) pdir)
                \<and> f \<in> fst ` set auxinfo
                \<and> fs b = Some x \<and> fs (sub_aux_bbl f) = Some y
                \<and> modified y \<le> modified x)"
      by auto
    finally show ?thesis using False by simp
  qed
  show ?thesis
  proof (rule conjI [OF eq], rule impI)
    assume "\<forall>f. f \<in> fst ` set auxinfo \<longrightarrow> fs (sub_aux_bbl f) = None"
    then show "\<not> fst (biboutofdate os kpse fs auxinfo pdir includeblx)"
      unfolding eq by auto
  qed
qed

text \<open>The claim as stated fails: \<open>main.aux\<close> names \<open>refs.bib\<close>, which exists, the
  compiled \<open>main.bbl\<close> does not exist, and the answer is false.\<close>

theorem biboutofdate_missing_bbl_counterexample:
  "bibnames aux_c1 True = [''refs.bib'']
   \<and> kpsewhich posix kpse_c1 (bibnames aux_c1 True) ''/d'' = [''/d/refs.bib'']
   \<and> sub_aux_bbl ''/d/main.aux'' = ''/d/main.bbl''
   \<and> fs_nobbl ''/d/main.bbl'' = None
   \<and> biboutofdate posix kpse_c1 fs_nobbl aux_c1 ''/d'' True = (False, [''/d/refs.bib''])"
  by code_simp

theorem biboutofdate_iff_witness:
  "fst (biboutofdate posix kpse_c1 fs_oldbbl aux_c1 ''/d'' True)
   \<and> \<not> fst (biboutofdate posix kpse_c1 fs_nobbl aux_c1 ''/d'' True)"
proof -
  have n: "bibnames aux_c1 True \<noteq> []" by code_simp
  have b: "''/d/refs.bib'' \<in> set (kpsewhich posix kpse_c1 (bibnames aux_c1 True) ''/d'')" by code_simp
  have f: "''/d/main.aux'' \<in> fst ` set aux_c1" by (simp add: aux_c1_def)
  have x: "fs_oldbbl ''/d/refs.bib'' = Some (emptyfile 3)" by (simp add: fs_oldbbl_def)
  have y: "fs_oldbbl (sub_aux_bbl ''/d/main.aux'') = Some (emptyfile 2)" by code_simp
  have t: "modified (emptyfile 2) \<le> modified (emptyfile 3)" by (simp add: emptyfile_def)
  have z: "fs_nobbl (sub_aux_bbl ''/d/main.aux'') = None" by code_simp
  have m: "\<forall>f. f \<in> fst ` set aux_c1 \<longrightarrow> fs_nobbl (sub_aux_bbl f) = None"
    using z by (simp add: aux_c1_def)
  have 1: "fst (biboutofdate posix kpse_c1 fs_oldbbl aux_c1 ''/d'' True)"
    using biboutofdate_iff [of posix kpse_c1 fs_oldbbl aux_c1 "''/d''" True] n b f x y t by blast
  have 2: "\<not> fst (biboutofdate posix kpse_c1 fs_nobbl aux_c1 ''/d'' True)"
    using biboutofdate_iff [of posix kpse_c1 fs_nobbl aux_c1 "''/d''" True] m by blast
  show ?thesis using 1 2 by simp
qed

text \<open>
  Claim C2, as the code has it. The test of the main loop for one index is true exactly
  when the source and the compiled index both exist and the source is at least as new as
  the index; equal times count as stale. A missing index counts as \<open>+inf\<close>, so the test
  is false whenever the index file does not exist.
\<close>

theorem index_outofdate_iff:
  "(index_outofdate fs texfile indexfile \<longleftrightarrow>
      (\<exists>x y. fs texfile = Some x \<and> fs indexfile = Some y \<and> modified y \<le> modified x))
   \<and> (fs indexfile = None \<longrightarrow> \<not> index_outofdate fs texfile indexfile)"
  unfolding index_outofdate_def getmtime_le_iff by auto

text \<open>The claim as stated fails: the source exists, the index does not, and the test is
  false.\<close>

theorem index_outofdate_missing_counterexample:
  "fs_noindex ''/d/main.ind'' = None \<and> \<not> index_outofdate fs_noindex ''/d/main.tex'' ''/d/main.ind''"
  by code_simp

theorem index_outofdate_iff_witness:
  "index_outofdate fs_sameindex ''/d/main.tex'' ''/d/main.ind''
   \<and> \<not> index_outofdate fs_noindex ''/d/main.tex'' ''/d/main.ind''"
proof -
  have x: "fs_sameindex ''/d/main.tex'' = Some (emptyfile 5)" by (simp add: fs_sameindex_def)
  have y: "fs_sameindex ''/d/main.ind'' = Some (emptyfile 5)" by (simp add: fs_sameindex_def)
  have n: "fs_noindex ''/d/main.ind'' = None" by (simp add: fs_noindex_def)
  have 1: "index_outofdate fs_sameindex ''/d/main.tex'' ''/d/main.ind''"
    using index_outofdate_iff [of fs_sameindex "''/d/main.tex''" "''/d/main.ind''"] x y by blast
  have 2: "\<not> index_outofdate fs_noindex ''/d/main.tex'' ''/d/main.ind''"
    using index_outofdate_iff [of fs_noindex "''/d/main.tex''" "''/d/main.ind''"] n by blast
  show ?thesis using 1 2 by simp
qed

subsection \<open>The log scan\<close>








subsection \<open>The citation index\<close>

lemma hex_example: "hex 0x7f3c5b8d2e50 = ''7f3c5b8d2e50''"
  by code_simp

text \<open>
  Claim C5 asks for a key made of the letters, digits and spaces of the field. The code
  filters with \<open>str(filter(self.keep, name))\<close>, which in Python 3 is the representation
  of the filter object and not the filtered text: whatever the field, the key is the
  upper-cased representation, which starts with \<open><\<close>. For the field \<open>Smith\<close> and a
  filter object at \<open>0x7f3c5b8d2e50\<close> the key is \<open><FILTER OBJECT AT 0X7F3C5B8D2E50>\<close>,
  not \<open>SMITH\<close>.
\<close>

theorem purify_is_repr:
  "purify a name = upper (''<filter object at 0x'' @ hex a @ ''>'')
   \<and> purify 0x7f3c5b8d2e50 ''Smith'' = ''<FILTER OBJECT AT 0X7F3C5B8D2E50>''"
proof
  show "purify a name = upper (''<filter object at 0x'' @ hex a @ ''>'')"
    by (simp add: purify_def)
  show "purify 0x7f3c5b8d2e50 ''Smith'' = ''<FILTER OBJECT AT 0X7F3C5B8D2E50>''"
    by (simp add: purify_def hex_example upper_def upper_char_def)
qed

lemma clean_loop_good:
  "\<forall>l \<in> set ls. entryre_search l \<noteq> None \<Longrightarrow>
   clean_loop addr f i ls w =
     (None, w @ map (\<lambda>(k, l). entry_of addr k (the (entryre_search l)) @ [newline])
                    (zip [i..<i + length ls] ls))"
proof (induction ls arbitrary: i w)
  case Nil
  then show ?case by simp
next
  case (Cons l ls)
  from Cons.prems obtain m where m: "entryre_search l = Some m" by auto
  have u: "[i..<i + length (l # ls)] = i # [Suc i..<Suc i + length ls]"
    by (simp add: upt_rec)
  from Cons.prems have "\<forall>l \<in> set ls. entryre_search l \<noteq> None" by simp
  from Cons.IH [OF this, of "Suc i" "w @ [entry_of addr i m @ [newline]]"] m
  show ?case unfolding u by simp
qed

lemma clean_loop_bad:
  "\<forall>l \<in> set good. entryre_search l \<noteq> None \<Longrightarrow> entryre_search bad = None \<Longrightarrow>
   clean_loop addr f i (good @ bad # rest) w =
     (Some (CorruptIndex (i + length good) f), snd (clean_loop addr f i good w))"
proof (induction good arbitrary: i w)
  case Nil
  then show ?case by simp
next
  case (Cons l ls)
  from Cons.prems obtain m where m: "entryre_search l = Some m" by auto
  from Cons.prems have "\<forall>l \<in> set ls. entryre_search l \<noteq> None" by simp
  from Cons.IH [OF this Cons.prems(2), of "Suc i" "w @ [entry_of addr i m @ [newline]]"] m
  show ?case by simp
qed

lemma clean_default_ok:
  assumes "fs infilename = Some infile" and "fs tmp = None"
    and "\<forall>l \<in> set (content infile). entryre_search l \<noteq> None"
  shows "clean addr now tmp fs infilename None =
           (None, fs(infilename \<mapsto>
              \<lparr>modified = now,
               content = map (\<lambda>(k, l). entry_of addr k (the (entryre_search l)) @ [newline])
                             (zip [0..<length (content infile)] (content infile))\<rparr>))"
proof -
  let ?w = "map (\<lambda>(k, l). entry_of addr k (the (entryre_search l)) @ [newline])
                (zip [0..<length (content infile)] (content infile))"
  from assms have ne: "tmp \<noteq> infilename" by auto
  have r: "clean_loop addr infilename 0 (content infile) [] = (None, ?w)"
    using clean_loop_good [OF assms(3), of addr infilename 0 "[]"] by simp
  have "(fs(tmp \<mapsto> \<lparr>modified = now, content = ?w\<rparr>,
            infilename \<mapsto> \<lparr>modified = now, content = ?w\<rparr>))(tmp := None)
          = fs(infilename \<mapsto> \<lparr>modified = now, content = ?w\<rparr>)"
    using assms ne by (intro ext) simp
  then show ?thesis using assms ne r by (simp add: clean_def Let_def)
qed

lemma clean_default_fail:
  assumes "fs infilename = Some infile" and "tmp \<noteq> infilename"
    and "content infile = good @ bad # rest"
    and "\<forall>l \<in> set good. entryre_search l \<noteq> None" and "entryre_search bad = None"
  shows "clean addr now tmp fs infilename None =
           (Some (CorruptIndex (length good) infilename),
            fs(tmp \<mapsto> \<lparr>modified = now, content = snd (clean_loop addr infilename 0 good [])\<rparr>))"
proof -
  have "clean_loop addr infilename 0 (content infile) [] =
        (Some (CorruptIndex (length good) infilename), snd (clean_loop addr infilename 0 good []))"
    using clean_loop_bad [OF assms(4,5), of addr infilename 0 rest "[]"] assms(3) by simp
  then show ?thesis using assms(1,2) by (simp add: clean_def Let_def)
qed

lemma clean_explicit_fail:
  assumes "fs infilename = Some infile" and "out \<noteq> infilename"
    and "content infile = good @ bad # rest"
    and "\<forall>l \<in> set good. entryre_search l \<noteq> None" and "entryre_search bad = None"
  shows "clean addr now tmp fs infilename (Some out) =
           (Some (CorruptIndex (length good) infilename),
            fs(out \<mapsto> \<lparr>modified = now, content = snd (clean_loop addr infilename 0 good [])\<rparr>))"
proof -
  have "clean_loop addr infilename 0 (content infile) [] =
        (Some (CorruptIndex (length good) infilename), snd (clean_loop addr infilename 0 good []))"
    using clean_loop_bad [OF assms(4,5), of addr infilename 0 rest "[]"] assms(3) by simp
  then show ?thesis using assms(1,2) by (simp add: clean_def Let_def)
qed

lemma entryre_search_sublist: "entryre_search s = Some m \<Longrightarrow> sublist entry_open s"
proof (induction s)
  case Nil
  then show ?case by (simp add: entry_at_def entry_open_def)
next
  case (Cons c cs)
  show ?case
  proof (cases "entry_at (c # cs)")
    case None
    with Cons show ?thesis by (simp add: sublist_Cons_right)
  next
    case (Some a)
    then have "prefix entry_open (c # cs)" by (simp add: entry_at_def split: if_splits)
    then show ?thesis by (simp add: sublist_Cons_right)
  qed
qed

lemma sublist_split_char:
  assumes "c \<notin> set xs" and "sublist xs (u @ c # v)"
  shows "sublist xs u \<or> sublist xs v"
proof -
  from assms(2) obtain ps ss where e: "u @ c # v = ps @ xs @ ss" by (auto simp: sublist_def)
  then consider us where "u = ps @ us" "us @ c # v = xs @ ss"
    | us where "u @ us = ps" "c # v = us @ xs @ ss"
    by (auto simp: append_eq_append_conv2)
  then show ?thesis
  proof cases
    case 1
    from 1(2) consider ws where "us = xs @ ws" | ws where "us @ ws = xs" "c # v = ws @ ss"
      by (auto simp: append_eq_append_conv2)
    then show ?thesis
    proof cases
      case 1
      with \<open>u = ps @ us\<close> show ?thesis by auto
    next
      case 2
      show ?thesis
      proof (cases ws)
        case Nil
        with 2 \<open>u = ps @ us\<close> show ?thesis by auto
      next
        case (Cons w ws')
        with 2 assms(1) show ?thesis by auto
      qed
    qed
  next
    case 2
    show ?thesis
    proof (cases us)
      case Nil
      with 2 assms(1) show ?thesis by (cases xs) auto
    next
      case (Cons w ws')
      with 2 show ?thesis by auto
    qed
  qed
qed

lemma sublist_no_first:
  assumes "x \<notin> set s"
  shows "\<not> sublist (x # xs) s"
proof
  assume "sublist (x # xs) s"
  then have "set (x # xs) \<subseteq> set s" by (auto simp: sublist_def)
  with assms show False by simp
qed

lemma hexdigit_mem: "hexdigit d \<in> set ''0123456789abcdef''"
proof -
  have "nat (d mod 16) < 16" by simp
  then show ?thesis unfolding hexdigit_def by (intro nth_mem) simp
qed

lemma hex_set: "set (hex n) \<subseteq> set ''0123456789abcdef''"
proof (induction n rule: hex.induct)
  case (1 n)
  show ?case
  proof (cases "n < 16")
    case True
    then show ?thesis using hexdigit_mem [of n] by (subst hex.simps) simp
  next
    case False
    with 1 hexdigit_mem [of n] show ?thesis by (subst hex.simps) simp
  qed
qed

lemma upper_char_cases:
  "upper_char c = c \<or> upper_char c \<in> set ''ABCDEFGHIJKLMNOPQRSTUVWXYZ''"
proof (cases "map_of (zip ''abcdefghijklmnopqrstuvwxyz'' ''ABCDEFGHIJKLMNOPQRSTUVWXYZ'') c")
  case None
  then show ?thesis by (simp add: upper_char_def)
next
  case (Some u)
  then have "(c, u) \<in> set (zip ''abcdefghijklmnopqrstuvwxyz'' ''ABCDEFGHIJKLMNOPQRSTUVWXYZ'')"
    by (rule map_of_SomeD)
  then have "u \<in> set ''ABCDEFGHIJKLMNOPQRSTUVWXYZ''" by (rule set_zip_rightD)
  with Some show ?thesis by (simp add: upper_char_def)
qed

lemma upper_char_bslash: "upper_char c = bslash \<Longrightarrow> c = bslash"
  using upper_char_cases [of c] by (auto simp: bslash_def)

lemma repr_no_bslash: "bslash \<notin> set (''<filter object at 0x'' @ hex a @ ''>'')"
proof -
  have "bslash \<notin> set ''<filter object at 0x''" by (simp add: bslash_def)
  moreover have "bslash \<notin> set ''0123456789abcdef''" by (simp add: bslash_def)
  then have "bslash \<notin> set (hex a)" using hex_set [of a] by blast
  moreover have "bslash \<notin> set ''>''" by (simp add: bslash_def)
  ultimately show ?thesis by (simp only: set_append Un_iff) blast
qed

lemma purify_no_bslash: "bslash \<notin> set (purify a name)"
proof
  assume "bslash \<in> set (purify a name)"
  moreover have "purify a name = map upper_char (''<filter object at 0x'' @ hex a @ ''>'')"
    by (simp add: purify_def upper_def)
  ultimately have "bslash \<in> upper_char ` set (''<filter object at 0x'' @ hex a @ ''>'')"
    by (simp only: set_map)
  then obtain c where c: "c \<in> set (''<filter object at 0x'' @ hex a @ ''>'')" "bslash = upper_char c"
    by (rule imageE)
  then have "c = bslash" using upper_char_bslash [of c] by simp
  with c(1) repr_no_bslash [of a] show False by simp
qed

lemma entry_open_chars: "CHR ''}'' \<notin> set entry_open" "CHR ''@'' \<notin> set entry_open"
  by (simp_all add: entry_open_def bslash_def)

lemma sublist_entry_open_Cons:
  "c \<noteq> bslash \<Longrightarrow> sublist entry_open (c # s) \<Longrightarrow> sublist entry_open s"
  by (auto simp: sublist_Cons_right entry_open_def)

lemma entry_of_not_entry:
  assumes "\<not> sublist entry_open a" "\<not> sublist entry_open y" "\<not> sublist entry_open p"
  shows "entryre_search (entry_of addr i (a, y, p) @ [newline]) = None"
proof (rule ccontr)
  let ?K = "purify (addr (2 * i)) a @ '' '' @ purify (addr (2 * i + 1)) y"
  assume "entryre_search (entry_of addr i (a, y, p) @ [newline]) \<noteq> None"
  then have "sublist entry_open (entry_of addr i (a, y, p) @ [newline])"
    using entryre_search_sublist by auto
  moreover have "entry_of addr i (a, y, p) @ [newline]
      = (bslash # ''indexentry{'' @ ?K) @ CHR ''@'' # ((CHR ''{'' # a) @ CHR ''}'' # ((bslash # CHR '' '' # y) @ CHR ''}'' # ((CHR ''{'' # p) @ CHR ''}'' # [newline])))"
    by (simp add: entry_of_def)
  ultimately have "sublist entry_open (bslash # ''indexentry{'' @ ?K)
      \<or> sublist entry_open (CHR ''{'' # a)
      \<or> sublist entry_open (bslash # CHR '' '' # y)
      \<or> sublist entry_open (CHR ''{'' # p)
      \<or> sublist entry_open [newline]"
    using sublist_split_char [OF entry_open_chars(1)] sublist_split_char [OF entry_open_chars(2)]
    by metis
  moreover have "\<not> sublist entry_open (bslash # ''indexentry{'' @ ?K)"
  proof -
    have k: "bslash \<notin> set (''indexentry{'' @ ?K)"
      using purify_no_bslash by (auto simp: bslash_def)
    have "\<not> prefix entry_open (bslash # ''indexentry{'' @ ?K)" by (simp add: entry_open_def)
    moreover have "\<not> sublist entry_open (''indexentry{'' @ ?K)"
      unfolding entry_open_def by (rule sublist_no_first [OF k])
    ultimately show ?thesis by (simp only: sublist_Cons_right) simp
  qed
  moreover have "\<not> sublist entry_open (CHR ''{'' # a)"
    using assms(1) sublist_entry_open_Cons [of "CHR ''{''" a] by (auto simp: bslash_def)
  moreover have "\<not> sublist entry_open (CHR ''{'' # p)"
    using assms(3) sublist_entry_open_Cons [of "CHR ''{''" p] by (auto simp: bslash_def)
  moreover have "\<not> sublist entry_open (bslash # CHR '' '' # y)"
  proof -
    have "\<not> prefix entry_open (bslash # CHR '' '' # y)" by (simp add: entry_open_def)
    moreover have "\<not> sublist entry_open (CHR '' '' # y)"
      using assms(2) sublist_entry_open_Cons [of "CHR '' ''" y] by (auto simp: bslash_def)
    ultimately show ?thesis by (simp only: sublist_Cons_right) simp
  qed
  moreover have "\<not> sublist entry_open [newline]"
    by (simp add: sublist_Cons_right entry_open_def)
  ultimately show False by blast
qed

text \<open>
  Claim C7, as the code has it. With no output name given and a fresh temporary name: if
  every line is an entry, the input file is replaced in one step by the file of the
  written entries; if a line is no entry, the error is raised at the first such line,
  the lines after it are not processed, and the input file is untouched (the entries
  written so far are in the temporary file, which is left behind). With an output name
  given, the destination is truncated when it is opened and after the error holds the
  entries of the lines before the bad one.
\<close>

theorem clean_default_atomic:
  assumes "fs infilename = Some infile" and "fs tmp = None"
  shows "((\<forall>l \<in> set (content infile). entryre_search l \<noteq> None) \<longrightarrow>
            clean addr now tmp fs infilename None =
              (None, fs(infilename \<mapsto>
                 \<lparr>modified = now,
                  content = map (\<lambda>(k, l). entry_of addr k (the (entryre_search l)) @ [newline])
                                (zip [0..<length (content infile)] (content infile))\<rparr>)))
       \<and> (content infile = good @ bad # rest \<and> (\<forall>l \<in> set good. entryre_search l \<noteq> None)
            \<and> entryre_search bad = None \<longrightarrow>
            clean addr now tmp fs infilename None =
              (Some (CorruptIndex (length good) infilename),
               fs(tmp \<mapsto> \<lparr>modified = now, content = snd (clean_loop addr infilename 0 good [])\<rparr>))
            \<and> snd (clean addr now tmp fs infilename None) infilename = fs infilename
            \<and> (out \<noteq> infilename \<longrightarrow>
                 clean addr now tmp fs infilename (Some out) =
                   (Some (CorruptIndex (length good) infilename),
                    fs(out \<mapsto> \<lparr>modified = now,
                                content = snd (clean_loop addr infilename 0 good [])\<rparr>))))"
proof -
  from assms have ne: "tmp \<noteq> infilename" by auto
  show ?thesis
  proof (intro conjI impI)
    assume a: "\<forall>l \<in> set (content infile). entryre_search l \<noteq> None"
    show "clean addr now tmp fs infilename None =
              (None, fs(infilename \<mapsto>
                 \<lparr>modified = now,
                  content = map (\<lambda>(k, l). entry_of addr k (the (entryre_search l)) @ [newline])
                                (zip [0..<length (content infile)] (content infile))\<rparr>))"
      using assms a by (rule clean_default_ok)
  next
    assume h: "content infile = good @ bad # rest \<and> (\<forall>l \<in> set good. entryre_search l \<noteq> None)
            \<and> entryre_search bad = None"
    then have h1: "content infile = good @ bad # rest"
      and h2: "\<forall>l \<in> set good. entryre_search l \<noteq> None"
      and h3: "entryre_search bad = None"
      by simp_all
    show c: "clean addr now tmp fs infilename None =
              (Some (CorruptIndex (length good) infilename),
               fs(tmp \<mapsto> \<lparr>modified = now, content = snd (clean_loop addr infilename 0 good [])\<rparr>))"
      using assms(1) ne h1 h2 h3 by (rule clean_default_fail)
    show "snd (clean addr now tmp fs infilename None) infilename = fs infilename"
      unfolding c using ne by simp
    show "clean addr now tmp fs infilename (Some out) =
                   (Some (CorruptIndex (length good) infilename),
                    fs(out \<mapsto> \<lparr>modified = now,
                                content = snd (clean_loop addr infilename 0 good [])\<rparr>))"
      if "out \<noteq> infilename"
      using assms(1) that h1 h2 h3 by (rule clean_explicit_fail)
  qed
qed

text \<open>The claim as stated fails for a given output name: the destination did not exist, the
  second line is no entry, and after the error the destination holds the entry of the
  first line.\<close>

theorem clean_explicit_partial_write_counterexample:
  "fs_ctx_bad ''/d/out.cnd'' = None
   \<and> fst (clean addr0 2 ''/d/authorindex_k3'' fs_ctx_bad ''/d/main.ctx'' (Some ''/d/out.cnd''))
       = Some (CorruptIndex 1 ''/d/main.ctx'')
   \<and> snd (clean addr0 2 ''/d/authorindex_k3'' fs_ctx_bad ''/d/main.ctx'' (Some ''/d/out.cnd''))
         ''/d/out.cnd''
       = Some \<lparr>modified = 2,
               content = [bslash # ''indexentry{<FILTER OBJECT AT 0X7F3C5B8D2E50> <FILTER OBJECT AT 0X7F3C5B8D2E50>@''
                            @ ''{Smith}'' @ [bslash] @ '' 2001}{5}\<newline>'']\<rparr>"
  by code_simp

theorem clean_default_atomic_witness:
  "clean addr0 2 ''/d/authorindex_k3'' fs_ctx_bad ''/d/main.ctx'' None =
     (Some (CorruptIndex 1 ''/d/main.ctx''),
      fs_ctx_bad(''/d/authorindex_k3'' \<mapsto>
        \<lparr>modified = 2, content = snd (clean_loop addr0 ''/d/main.ctx'' 0 [smith] [])\<rparr>))
   \<and> snd (clean addr0 2 ''/d/authorindex_k3'' fs_ctx_bad ''/d/main.ctx'' None) ''/d/main.ctx''
       = fs_ctx_bad ''/d/main.ctx''
   \<and> clean addr0 2 ''/d/authorindex_k3'' fs_ctx ''/d/main.ctx'' None =
       (None, fs_ctx(''/d/main.ctx'' \<mapsto>
          \<lparr>modified = 2,
           content = map (\<lambda>(k, l). entry_of addr0 k (the (entryre_search l)) @ [newline])
                         (zip [0..<length [smith]] [smith])\<rparr>))"
proof -
  have i: "fs_ctx_bad ''/d/main.ctx'' = Some \<lparr>modified = 1, content = [smith, ''garbage\<newline>'']\<rparr>"
    by (simp add: fs_ctx_bad_def)
  have t: "fs_ctx_bad ''/d/authorindex_k3'' = None" by (simp add: fs_ctx_bad_def)
  have c: "content \<lparr>modified = 1, content = [smith, ''garbage\<newline>'']\<rparr> = [smith] @ ''garbage\<newline>'' # []"
    by simp
  have s: "entryre_search smith \<noteq> None" by code_simp
  then have g: "\<forall>l \<in> set [smith]. entryre_search l \<noteq> None" by simp
  have b: "entryre_search ''garbage\<newline>'' = None" by code_simp
  have i': "fs_ctx ''/d/main.ctx'' = Some \<lparr>modified = 1, content = [smith]\<rparr>"
    by (simp add: fs_ctx_def)
  have t': "fs_ctx ''/d/authorindex_k3'' = None" by (simp add: fs_ctx_def)
  have g': "\<forall>l \<in> set (content \<lparr>modified = 1, content = [smith]\<rparr>). entryre_search l \<noteq> None"
    using s by simp
  have 1: "clean addr0 2 ''/d/authorindex_k3'' fs_ctx_bad ''/d/main.ctx'' None =
     (Some (CorruptIndex 1 ''/d/main.ctx''),
      fs_ctx_bad(''/d/authorindex_k3'' \<mapsto>
        \<lparr>modified = 2, content = snd (clean_loop addr0 ''/d/main.ctx'' 0 [smith] [])\<rparr>))
   \<and> snd (clean addr0 2 ''/d/authorindex_k3'' fs_ctx_bad ''/d/main.ctx'' None) ''/d/main.ctx''
       = fs_ctx_bad ''/d/main.ctx''"
    using clean_default_atomic [where fs = fs_ctx_bad and infilename = "''/d/main.ctx''"
        and infile = "\<lparr>modified = 1, content = [smith, ''garbage\<newline>'']\<rparr>"
        and tmp = "''/d/authorindex_k3''" and good = "[smith]" and bad = "''garbage\<newline>''"
        and rest = "[]" and addr = addr0 and now = 2]
      i t c g b by simp
  have 2: "clean addr0 2 ''/d/authorindex_k3'' fs_ctx ''/d/main.ctx'' None =
       (None, fs_ctx(''/d/main.ctx'' \<mapsto>
          \<lparr>modified = 2,
           content = map (\<lambda>(k, l). entry_of addr0 k (the (entryre_search l)) @ [newline])
                         (zip [0..<length [smith]] [smith])\<rparr>))"
    using clean_default_atomic [where fs = fs_ctx and infilename = "''/d/main.ctx''"
        and infile = "\<lparr>modified = 1, content = [smith]\<rparr>"
        and tmp = "''/d/authorindex_k3''" and addr = addr0 and now = 2]
      i' t' g' by simp
  show ?thesis using 1 2 by blast
qed

text \<open>
  Claim C6, as the code has it. One run keeps the display text: each written line is
  \<open>\indexentry{\<close>, the sort key, an at sign, and then the author in braces, a backslash
  and a space, the year, and the page in braces, with the author, year and page of the
  input unchanged. But the written line is not an input entry (it has no space and no
  second brace after \<open>\indexentry\<close>), so a second run on the output does not succeed:
  unless a field of the first entry itself contains the text \<open>\indexentry {{\<close>, the
  second run raises the error for line 0 and leaves the file as the first run wrote it.
\<close>

theorem clean_twice_fails:
  assumes "fs infilename = Some infile" and "fs tmp = None" and "tmp' \<noteq> infilename"
    and "\<forall>l \<in> set (content infile). entryre_search l \<noteq> None"
  shows "clean addr now tmp fs infilename None =
           (None, fs(infilename \<mapsto>
              \<lparr>modified = now,
               content = map (\<lambda>(k, l). entry_of addr k (the (entryre_search l)) @ [newline])
                             (zip [0..<length (content infile)] (content infile))\<rparr>))
       \<and> entry_of addr k (a, y, p) =
           bslash # ''indexentry{'' @ purify (addr (2 * k)) a @ '' '' @ purify (addr (2 * k + 1)) y
             @ ''@'' @ ''{'' @ a @ ''}'' @ [bslash] @ '' '' @ y @ ''}{'' @ p @ ''}''
       \<and> (content infile = line # rest \<and> entryre_search line = Some (a, y, p)
            \<and> \<not> sublist entry_open a \<and> \<not> sublist entry_open y \<and> \<not> sublist entry_open p \<longrightarrow>
            clean addr' now' tmp' (snd (clean addr now tmp fs infilename None)) infilename None =
              (Some (CorruptIndex 0 infilename),
               (snd (clean addr now tmp fs infilename None))
                 (tmp' \<mapsto> \<lparr>modified = now', content = []\<rparr>)))"
proof (intro conjI impI)
  show 1: "clean addr now tmp fs infilename None =
           (None, fs(infilename \<mapsto>
              \<lparr>modified = now,
               content = map (\<lambda>(k, l). entry_of addr k (the (entryre_search l)) @ [newline])
                             (zip [0..<length (content infile)] (content infile))\<rparr>))"
    using assms(1,2,4) by (rule clean_default_ok)
  show "entry_of addr k (a, y, p) =
           bslash # ''indexentry{'' @ purify (addr (2 * k)) a @ '' '' @ purify (addr (2 * k + 1)) y
             @ ''@'' @ ''{'' @ a @ ''}'' @ [bslash] @ '' '' @ y @ ''}{'' @ p @ ''}''"
    by (simp add: entry_of_def)
  assume h: "content infile = line # rest \<and> entryre_search line = Some (a, y, p)
            \<and> \<not> sublist entry_open a \<and> \<not> sublist entry_open y \<and> \<not> sublist entry_open p"
  let ?out = "map (\<lambda>(k, l). entry_of addr k (the (entryre_search l)) @ [newline])
                  (zip [0..<length (content infile)] (content infile))"
  let ?fs' = "fs(infilename \<mapsto> \<lparr>modified = now, content = ?out\<rparr>)"
  have o: "?out = (entry_of addr 0 (a, y, p) @ [newline]) # tl ?out"
    using h by (simp del: upt_Suc add: upt_conv_Cons)
  have b: "entryre_search (entry_of addr 0 (a, y, p) @ [newline]) = None"
    using h by (intro entry_of_not_entry) simp_all
  have f: "?fs' infilename = Some \<lparr>modified = now, content = ?out\<rparr>" by simp
  have c: "content \<lparr>modified = now, content = ?out\<rparr>
             = [] @ (entry_of addr 0 (a, y, p) @ [newline]) # tl ?out"
    using o by simp
  have "clean addr' now' tmp' ?fs' infilename None =
          (Some (CorruptIndex (length ([] :: string list)) infilename),
           ?fs'(tmp' \<mapsto> \<lparr>modified = now', content = snd (clean_loop addr' infilename 0 [] [])\<rparr>))"
    using clean_default_fail [where fs = ?fs' and infilename = infilename
        and infile = "\<lparr>modified = now, content = ?out\<rparr>" and tmp = tmp' and good = "[]"
        and bad = "entry_of addr 0 (a, y, p) @ [newline]" and rest = "tl ?out"
        and addr = addr' and now = now']
      f assms(3) c b by simp
  then show "clean addr' now' tmp' (snd (clean addr now tmp fs infilename None)) infilename None =
              (Some (CorruptIndex 0 infilename),
               (snd (clean addr now tmp fs infilename None))
                 (tmp' \<mapsto> \<lparr>modified = now', content = []\<rparr>))"
    unfolding 1 by simp
qed

text \<open>The claim as stated fails: the output of a first run on one ordinary entry is not
  accepted by a second run.\<close>

theorem clean_twice_counterexample:
  "fst (clean addr0 2 ''/d/authorindex_k3'' fs_ctx ''/d/main.ctx'' None) = None
   \<and> map_option content (snd (clean addr0 2 ''/d/authorindex_k3'' fs_ctx ''/d/main.ctx'' None) ''/d/main.ctx'')
       = Some [bslash # ''indexentry{<FILTER OBJECT AT 0X7F3C5B8D2E50> <FILTER OBJECT AT 0X7F3C5B8D2E50>@''
                 @ ''{Smith}'' @ [bslash] @ '' 2001}{5}\<newline>'']
   \<and> fst (clean addr0 3 ''/d/authorindex_q7''
             (snd (clean addr0 2 ''/d/authorindex_k3'' fs_ctx ''/d/main.ctx'' None))
             ''/d/main.ctx'' None)
       = Some (CorruptIndex 0 ''/d/main.ctx'')"
  by code_simp

theorem clean_twice_fails_witness:
  "clean addr0 3 ''/d/authorindex_q7''
     (snd (clean addr0 2 ''/d/authorindex_k3'' fs_ctx ''/d/main.ctx'' None)) ''/d/main.ctx'' None =
     (Some (CorruptIndex 0 ''/d/main.ctx''),
      (snd (clean addr0 2 ''/d/authorindex_k3'' fs_ctx ''/d/main.ctx'' None))
        (''/d/authorindex_q7'' \<mapsto> \<lparr>modified = 3, content = []\<rparr>))"
proof -
  have i: "fs_ctx ''/d/main.ctx'' = Some \<lparr>modified = 1, content = [smith]\<rparr>"
    by (simp add: fs_ctx_def)
  have t: "fs_ctx ''/d/authorindex_k3'' = None" by (simp add: fs_ctx_def)
  have n: "''/d/authorindex_q7'' \<noteq> ''/d/main.ctx''" by simp
  have s: "entryre_search smith = Some (''Smith'', ''2001'', ''5'')" by code_simp
  then have g: "\<forall>l \<in> set (content \<lparr>modified = 1, content = [smith]\<rparr>). entryre_search l \<noteq> None"
    by simp
  have a: "\<not> sublist entry_open ''Smith''" by code_simp
  have y: "\<not> sublist entry_open ''2001''" by code_simp
  have p: "\<not> sublist entry_open ''5''" by code_simp
  have c: "content \<lparr>modified = 1, content = [smith]\<rparr> = smith # []" by simp
  show ?thesis
    using clean_twice_fails [where fs = fs_ctx and infilename = "''/d/main.ctx''"
        and infile = "\<lparr>modified = 1, content = [smith]\<rparr>" and tmp = "''/d/authorindex_k3''"
        and tmp' = "''/d/authorindex_q7''" and line = smith and rest = "[]" and a = "''Smith''"
        and y = "''2001''" and p = "''5''" and addr = addr0 and now = 2 and addr' = addr0
        and now' = 3]
      i t n g c s a y p by blast
qed

subsection \<open>The main loop\<close>

lemma and_then_Inr: "and_then r f = Inr y \<Longrightarrow> \<exists>x. r = Inr x \<and> f x = Inr y"
  by (cases r) (simp_all add: and_then_def)

lemma auxinfo_step_distinct:
  "distinct (map fst (snd st)) \<Longrightarrow> distinct (map fst (snd (auxinfo_step os fs pdir f st)))"
  by (auto simp: auxinfo_step_def Let_def distinct_update split: option.splits)

lemma fold_auxinfo_step_distinct:
  "distinct (map fst (snd st)) \<Longrightarrow> distinct (map fst (snd (fold (auxinfo_step os fs pdir) fs' st)))"
  by (induction fs' arbitrary: st) (simp_all add: auxinfo_step_distinct)

lemma getauxinfo_distinct: "distinct (map fst (getauxinfo os fs files pdir m ext))"
  unfolding getauxinfo_def by (rule fold_auxinfo_step_distinct) simp

lemma new_snapshot_distinct:
  "new_snapshot os re opts w = Inr newauxinfo \<Longrightarrow> distinct (map fst newauxinfo)"
  using getauxinfo_distinct
  by (auto simp: new_snapshot_def Let_def dest!: and_then_Inr)

lemma changed_fold_map_of:
  "distinct (map fst new) \<Longrightarrow>
   map_of (fold (\<lambda>(f, aux) changed. if ischanged old m f aux then AList.update f aux changed else changed) new acc) k
     = (case map_of new k of
          Some a \<Rightarrow> if ischanged old m k a then Some a else map_of acc k
        | None \<Rightarrow> map_of acc k)"
proof (induction new arbitrary: acc)
  case Nil
  then show ?case by simp
next
  case (Cons x new)
  obtain g b where x: "x = (g, b)" by (cases x)
  from Cons.prems x have d: "distinct (map fst new)" and g: "g \<notin> fst ` set new" by auto
  from g have n: "map_of new g = None" by (simp add: map_of_eq_None_iff)
  show ?case
    using Cons.IH [OF d] x n
    by (auto simp: update_conv' split: option.splits)
qed

lemma getmodifiedaux_mem:
  assumes "distinct (map fst new)" and "map_of new f = Some a" and "ischanged old m f a"
  shows "(f, a) \<in> set (getmodifiedaux old new m)"
proof -
  have "map_of (getmodifiedaux old new m) f = Some a"
    unfolding getmodifiedaux_def using changed_fold_map_of [OF assms(1), of old m "[]" f] assms(2,3)
    by simp
  then show ?thesis by (rule map_of_SomeD)
qed

lemma aux_check_True: "aux_check par old fa True = True"
  by (cases fa) (simp add: aux_check_def)

lemma fold_aux_check_True: "fold (aux_check par old) xs True = True"
  by (induction xs) (simp_all add: aux_check_True)

lemma fold_aux_check_trigger:
  assumes "(f, a) \<in> set xs" and "bibdata a \<noteq> []" and "map_of old f = Some prev"
    and "bibdata prev \<noteq> bibdata a"
  shows "fold (aux_check par old) xs kg = True"
  using assms(1)
proof (induction xs arbitrary: kg)
  case Nil
  then show ?case by simp
next
  case (Cons x xs)
  show ?case
  proof (cases "x = (f, a)")
    case True
    then have "aux_check par old x kg = True"
      using assms(2,3,4) by (simp add: aux_check_def)
    then show ?thesis by (simp add: fold_aux_check_True)
  next
    case False
    with Cons show ?thesis by simp
  qed
qed

lemma index_check_True: "index_check opts fs e True = True"
  by (cases e) (simp add: index_check_def)

lemma fold_index_check_True: "fold (index_check opts fs) idx True = True"
  by (induction idx) (simp_all add: index_check_True)

lemma observe_Inr:
  assumes "observe os re opts blg w runcount st = Inr st'"
  shows "\<exists>newauxinfo idx kg.
           new_snapshot os re opts w = Inr newauxinfo
         \<and> v_auxinfo st' = getmodifiedaux (old_snapshot os re opts w runcount (v_auxinfo st))
                               newauxinfo (paranoid opts)
         \<and> v_keepgoing st' =
             fold (index_check opts (fs_new w)) idx
               (fold (aux_check (paranoid opts) (old_snapshot os re opts w runcount (v_auxinfo st)))
                     (v_auxinfo st') kg)
         \<and> v_runcount st' = Some runcount"
  using assms
  by (auto simp: observe_def Let_def split: option.splits dest!: and_then_Inr) blast+

text \<open>
  Claim C8, as the code has it. The loop compares the bibliography lists only for the
  auxiliary files in the set of changed files. If an auxiliary file is in both
  snapshots of a pass, its new list is not empty and differs from the old one as a
  sequence, and the file counts as changed (its time is strictly later, or with the
  paranoid option its digest differs), then the pass ends with \<open>keepgoing\<close> true.
\<close>

theorem bibdata_change_continues:
  assumes "observe os re opts blg w runcount st = Inr st'"
    and "new_snapshot os re opts w = Inr newauxinfo"
    and "map_of (old_snapshot os re opts w runcount (v_auxinfo st)) f = Some prev"
    and "map_of newauxinfo f = Some a"
    and "bibdata a \<noteq> []" and "bibdata prev \<noteq> bibdata a"
    and "timestamp prev < timestamp a \<or> (paranoid opts \<and> md5 a \<noteq> md5 prev)"
  shows "v_keepgoing st' \<and> v_keepgoing (floor_runs opts runcount st')"
proof -
  let ?old = "old_snapshot os re opts w runcount (v_auxinfo st)"
  from observe_Inr [OF assms(1)] assms(2) obtain idx kg where
    a: "v_auxinfo st' = getmodifiedaux ?old newauxinfo (paranoid opts)" and
    k: "v_keepgoing st' =
          fold (index_check opts (fs_new w)) idx
            (fold (aux_check (paranoid opts) ?old) (v_auxinfo st') kg)"
    by auto
  have "ischanged ?old (paranoid opts) f a"
    using assms(3,7) by (auto simp: ischanged_def)
  then have "(f, a) \<in> set (v_auxinfo st')"
    unfolding a using new_snapshot_distinct [OF assms(2)] assms(4)
    by (intro getmodifiedaux_mem)
  then have "fold (aux_check (paranoid opts) ?old) (v_auxinfo st') kg = True"
    using assms(5,3,6) by (rule fold_aux_check_trigger)
  then have "v_keepgoing st'" unfolding k by (simp add: fold_index_check_True)
  then show ?thesis by (simp add: floor_runs_def)
qed

text \<open>The claim as stated fails: with every time unchanged and without the paranoid option,
  the auxiliary file names another bibliography, and the pass ends with \<open>keepgoing\<close>
  false.\<close>

theorem bibdata_change_unnoticed_counterexample:
  "map_option bibdata (map_of (old_snapshot posix re_plain (opts_plain 1) (world_bib 10) 2
                                 (v_auxinfo st_bib)) ''/d/main.aux'')
     = Some [''refs.bib'']
   \<and> map_sum id (\<lambda>new. map_option bibdata (map_of new ''/d/main.aux''))
        (new_snapshot posix re_plain (opts_plain 1) (world_bib 10))
     = Inr (Some [''other.bib''])
   \<and> map_sum id (\<lambda>st. v_keepgoing (floor_runs (opts_plain 1) 2 st))
        (observe posix re_plain (opts_plain 1) blg_plain (world_bib 10) 2 st_bib)
     = Inr False"
  by code_simp

theorem bibdata_change_continues_witness:
  "map_sum id v_keepgoing
     (observe posix re_plain (opts_plain 1) blg_plain (world_bib 20) 2 st_bib) = Inr True"
proof -
  define st' where "st' = projr (observe posix re_plain (opts_plain 1) blg_plain (world_bib 20) 2 st_bib)"
  define new where "new = projr (new_snapshot posix re_plain (opts_plain 1) (world_bib 20))"
  define prev where "prev = \<lparr>relpath = ''main.aux'', exists = True, timestamp = Fin 10,
                              bibdata = [''refs.bib''], md5 = None\<rparr>"
  define a where "a = \<lparr>relpath = ''main.aux'', exists = True, timestamp = Fin 20,
                              bibdata = [''other.bib''], md5 = None\<rparr>"
  have 1: "observe posix re_plain (opts_plain 1) blg_plain (world_bib 20) 2 st_bib = Inr st'"
    unfolding st'_def by code_simp
  have 2: "new_snapshot posix re_plain (opts_plain 1) (world_bib 20) = Inr new"
    unfolding new_def by code_simp
  have 3: "map_of (old_snapshot posix re_plain (opts_plain 1) (world_bib 20) 2 (v_auxinfo st_bib))
             ''/d/main.aux'' = Some prev"
    unfolding prev_def by code_simp
  have 4: "map_of new ''/d/main.aux'' = Some a"
    unfolding new_def a_def by code_simp
  have 5: "bibdata a \<noteq> []" by (simp add: a_def)
  have 6: "bibdata prev \<noteq> bibdata a" by (simp add: a_def prev_def)
  have 7: "timestamp prev < timestamp a \<or> (paranoid (opts_plain 1) \<and> md5 a \<noteq> md5 prev)"
    by (simp add: a_def prev_def less_mtime_def)
  from bibdata_change_continues [OF 1 2 3 4 5 6 7] have "v_keepgoing st'" by simp
  with 1 show ?thesis by simp
qed

lemma blgchecker_ok_case: "(case blgchecker of Inr c \<Rightarrow> True | Inl e \<Rightarrow> False)" by code_simp

lemma blgchecker_ok: "\<exists>b. blgchecker = Inr b"
proof (cases blgchecker)
  case (Inl a)
  have False using blgchecker_ok_case unfolding Inl by simp
  then show ?thesis ..
next
  case (Inr b)
  then show ?thesis by (rule exI)
qed

lemma logchecker_ok: "\<exists>c d. logchecker = Inr c \<and> map_of (checks c) (Name ''undefcite'') = Some d"
proof (cases logchecker)
  case (Inl a)
  have "(case logchecker of Inr c \<Rightarrow> map_of (checks c) (Name ''undefcite'') \<noteq> None
         | Inl e \<Rightarrow> False)"
    by code_simp
  then have False unfolding Inl by simp
  then show ?thesis ..
next
  case (Inr c)
  have "(case logchecker of Inr c \<Rightarrow> map_of (checks c) (Name ''undefcite'') \<noteq> None
         | Inl e \<Rightarrow> False)"
    by code_simp
  then have "map_of (checks c) (Name ''undefcite'') \<noteq> None" unfolding Inr by simp
  then obtain d where "map_of (checks c) (Name ''undefcite'') = Some d" by blast
  with Inr show ?thesis by blast
qed

lemma initial_total: "\<exists>blg st0. initial re opts fs0 = Inr (blg, st0)"
proof -
  from blgchecker_ok obtain b where b: "blgchecker = Inr b" ..
  from logchecker_ok obtain c d where l: "logchecker = Inr c" "map_of (checks c) (Name ''undefcite'') = Some d"
    by blast
  show ?thesis
    unfolding initial_def b l(1) by (simp add: and_then_def change_def Let_def l(2))
qed

text \<open>A pass in which no check fires. If bibtex and the index programs raise nothing,
  pdflatex returns zero, the log has no message of the levels \<open>warning\<close>, \<open>error\<close>
  and \<open>fatal\<close>, the checks of the bibliography and of the number of slides do not fire
  when they are made, no changed auxiliary file has a new list of bibliographies or (with
  the paranoid option) is new or has a new digest, and no index is out of date, then the
  pass raises nothing and ends with \<open>keepgoing\<close> false.\<close>

lemma fold_aux_check_quiet:
  assumes "\<forall>(f, a) \<in> set auxinfo. \<forall>prev. map_of old f = Some prev \<longrightarrow> bibdata a = [] \<or> bibdata prev = bibdata a"
    and "par \<longrightarrow> (\<forall>(f, a) \<in> set auxinfo. \<exists>prev. map_of old f = Some prev \<and> md5 prev = md5 a)"
  shows "fold (aux_check par old) auxinfo False = False"
  using assms
proof (induction auxinfo)
  case Nil
  then show ?case by simp
next
  case (Cons x xs)
  obtain f a where x: "x = (f, a)" by (cases x)
  have "aux_check par old (f, a) False = False"
    using Cons.prems x by (auto simp: aux_check_def Let_def split: option.splits)
  with Cons x show ?case by simp
qed

lemma fold_index_check_quiet:
  assumes "\<forall>(name, inext, ext) \<in> set idx. \<not> index_outofdate fs (extrafile opts ''tex'') (extrafile opts ext)"
  shows "fold (index_check opts fs) idx False = False"
  using assms
proof (induction idx)
  case Nil
  then show ?case by simp
next
  case (Cons x xs)
  obtain name inext ext where x: "x = (name, inext, ext)" by (cases x)
  have "index_check opts fs (name, inext, ext) False = False"
    using Cons.prems x by (simp add: index_check_def)
  with Cons x show ?case by simp
qed

lemma first_checks_quiet:
  assumes "runcount = 1 \<or> recheck_aux opts \<longrightarrow>
             \<not> fst (biboutofdate os (kpse_out w) (fs_new w) auxinfo (fullbuilddir opts)
                      (check_blx_timestamps opts))"
    and "runcount = 1 \<or> recheck_aux opts \<longrightarrow> numslides \<noteq> None \<or> recheck_aux opts \<longrightarrow>
             checktotalslides re (fs_new w) (extrafile opts ''aux'') = numslides"
  shows "first_checks os re opts w runcount auxinfo numslides False = (False, numslides)"
  using assms by (auto simp: first_checks_def Let_def)

lemma final_levels_early:
  "runcount \<noteq> maxruns opts \<Longrightarrow> final_levels opts runcount lc = Inr lc"
  by (simp add: final_levels_def)

lemma observe_quiet:
  assumes "run_bibtex os re opts w blg (v_auxinfo st) = None"
    and "run_indices opts w (v_indexfiles st) = None"
    and "final_levels opts runcount (v_logchecker st) = Inr lc"
    and "returncode w = 0"
    and "search (search_re re) lc (fs_new w) (extrafile opts ''log'') = Inr msgs"
    and "msgs ''warning'' = []" and "msgs ''error'' = []" and "msgs ''fatal'' = []"
    and "new_snapshot os re opts w = Inr new"
    and "getindexfiles re (fs_new w) (extrafile opts ''log'') = Inr idx"
    and "old = old_snapshot os re opts w runcount (v_auxinfo st)"
    and "auxinfo = getmodifiedaux old new (paranoid opts)"
    and "runcount = 1 \<or> recheck_aux opts \<longrightarrow>
             \<not> fst (biboutofdate os (kpse_out w) (fs_new w) auxinfo (fullbuilddir opts)
                      (check_blx_timestamps opts))"
    and "runcount = 1 \<or> recheck_aux opts \<longrightarrow> v_beamer_numslides st \<noteq> None \<or> recheck_aux opts \<longrightarrow>
             checktotalslides re (fs_new w) (extrafile opts ''aux'') = v_beamer_numslides st"
    and "\<forall>(f, a) \<in> set auxinfo. \<forall>prev. map_of old f = Some prev \<longrightarrow> bibdata a = [] \<or> bibdata prev = bibdata a"
    and "paranoid opts \<longrightarrow> (\<forall>(f, a) \<in> set auxinfo. \<exists>prev. map_of old f = Some prev \<and> md5 prev = md5 a)"
    and "\<forall>(name, inext, ext) \<in> set idx. \<not> index_outofdate (fs_new w) (extrafile opts ''tex'') (extrafile opts ext)"
  shows "observe os re opts blg w runcount st =
           Inr \<lparr>v_keepgoing = False, v_auxinfo = auxinfo, v_indexfiles = idx,
                v_beamer_numslides = v_beamer_numslides st, v_logchecker = lc,
                v_runcount = Some runcount\<rparr>"
proof -
  have a: "fold (aux_check (paranoid opts) old) auxinfo False = False"
    using assms(15,16) by (rule fold_aux_check_quiet)
  have i: "fold (index_check opts (fs_new w)) idx False = False"
    using assms(17) by (rule fold_index_check_quiet)
  have f: "first_checks os re opts w runcount auxinfo (v_beamer_numslides st) False
             = (False, v_beamer_numslides st)"
    using assms(13,14) by (rule first_checks_quiet)
  show ?thesis
    using a i f
    unfolding assms(11,12)
    by (simp add: observe_def and_then_def Let_def assms(1-10))
qed

lemma observe_keepgoing:
  "observe os re opts blg w runcount (st\<lparr>v_keepgoing := b\<rparr>) = observe os re opts blg w runcount st"
  by (simp add: observe_def cong: option.case_cong)

lemma initial_vars:
  assumes "initial re opts fs0 = Inr (blg, st0)"
  shows "v_auxinfo st0 = [] \<and> v_indexfiles st0 = []
       \<and> v_beamer_numslides st0 = checktotalslides re fs0 (extrafile opts ''aux'')"
  using assms by (auto simp: initial_def dest!: and_then_Inr)

text \<open>
  Claim C4, with the conditions it needs. With a minimum of 2 and a maximum of 4 runs,
  let the first two passes be such that pdflatex returns zero; the log has no warning,
  error or fatal message; the bibliography is not out of date and the number of slides
  has not changed (checked on the first pass, and on the second with \<open>recheck_aux\<close>);
  no index is out of date; no changed auxiliary file with a bibliography names other
  bibliographies than in the snapshot before the run; with the paranoid option, every
  changed auxiliary file was in the snapshot before the run, with the same digest; and
  bibtex and \<open>citationindex.clean\<close> raise nothing on the second pass. Then
  \<open>main\<close> ends without an error after exactly two passes: the checks of the first
  pass leave \<open>keepgoing\<close> false and only the test of the minimum number of runs sets
  it, and the second pass ends with \<open>keepgoing\<close> false. The variables before the
  loop always exist, by \<open>initial_total\<close>.
\<close>

theorem min_runs_floor:
  assumes "min_runs opts = 2" and "maxruns opts = 4"
    and "initial re opts fs0 = Inr (blg, st0)"
    and "returncode (ws 1) = 0"
    and "search (search_re re) (v_logchecker st0) (fs_new (ws 1)) (extrafile opts ''log'') = Inr msgs1"
    and "msgs1 ''warning'' = []" and "msgs1 ''error'' = []" and "msgs1 ''fatal'' = []"
    and "new_snapshot os re opts (ws 1) = Inr new1"
    and "getindexfiles re (fs_new (ws 1)) (extrafile opts ''log'') = Inr idx1"
    and "old1 = old_snapshot os re opts (ws 1) 1 []"
    and "aux1 = getmodifiedaux old1 new1 (paranoid opts)"
    and "\<not> fst (biboutofdate os (kpse_out (ws 1)) (fs_new (ws 1)) aux1 (fullbuilddir opts)
                (check_blx_timestamps opts))"
    and "slides0 = checktotalslides re fs0 (extrafile opts ''aux'')"
    and "slides0 \<noteq> None \<or> recheck_aux opts \<longrightarrow>
           checktotalslides re (fs_new (ws 1)) (extrafile opts ''aux'') = slides0"
    and "\<forall>(f, a) \<in> set aux1. \<forall>prev. map_of old1 f = Some prev \<longrightarrow>
           bibdata a = [] \<or> bibdata prev = bibdata a"
    and "paranoid opts \<longrightarrow>
           (\<forall>(f, a) \<in> set aux1. \<exists>prev. map_of old1 f = Some prev \<and> md5 prev = md5 a)"
    and "\<forall>(name, inext, ext) \<in> set idx1.
           \<not> index_outofdate (fs_new (ws 1)) (extrafile opts ''tex'') (extrafile opts ext)"
    and "run_bibtex os re opts (ws 2) blg aux1 = None"
    and "run_indices opts (ws 2) idx1 = None"
    and "returncode (ws 2) = 0"
    and "search (search_re re) (v_logchecker st0) (fs_new (ws 2)) (extrafile opts ''log'') = Inr msgs2"
    and "msgs2 ''warning'' = []" and "msgs2 ''error'' = []" and "msgs2 ''fatal'' = []"
    and "new_snapshot os re opts (ws 2) = Inr new2"
    and "getindexfiles re (fs_new (ws 2)) (extrafile opts ''log'') = Inr idx2"
    and "old2 = old_snapshot os re opts (ws 2) 2 aux1"
    and "aux2 = getmodifiedaux old2 new2 (paranoid opts)"
    and "recheck_aux opts \<longrightarrow>
           \<not> fst (biboutofdate os (kpse_out (ws 2)) (fs_new (ws 2)) aux2 (fullbuilddir opts)
                    (check_blx_timestamps opts))
           \<and> checktotalslides re (fs_new (ws 2)) (extrafile opts ''aux'') = slides0"
    and "\<forall>(f, a) \<in> set aux2. \<forall>prev. map_of old2 f = Some prev \<longrightarrow>
           bibdata a = [] \<or> bibdata prev = bibdata a"
    and "paranoid opts \<longrightarrow>
           (\<forall>(f, a) \<in> set aux2. \<exists>prev. map_of old2 f = Some prev \<and> md5 prev = md5 a)"
    and "\<forall>(name, inext, ext) \<in> set idx2.
           \<not> index_outofdate (fs_new (ws 2)) (extrafile opts ''tex'') (extrafile opts ext)"
  shows "\<exists>s1 s2. observe os re opts blg (ws 1) 1 st0 = Inr s1
           \<and> \<not> v_keepgoing s1 \<and> v_keepgoing (floor_runs opts 1 s1)
           \<and> observe os re opts blg (ws 2) 2 (floor_runs opts 1 s1) = Inr s2
           \<and> \<not> v_keepgoing s2 \<and> \<not> v_keepgoing (floor_runs opts 2 s2)
           \<and> v_runcount s2 = Some 2
           \<and> main os re opts fs0 ws = Inr s2"
proof -
  let ?lc = "v_logchecker st0"
  define s1 where "s1 = \<lparr>v_keepgoing = False, v_auxinfo = aux1, v_indexfiles = idx1,
                          v_beamer_numslides = v_beamer_numslides st0, v_logchecker = ?lc,
                          v_runcount = Some 1\<rparr>"
  define s2 where "s2 = \<lparr>v_keepgoing = False, v_auxinfo = aux2, v_indexfiles = idx2,
                          v_beamer_numslides = v_beamer_numslides st0, v_logchecker = ?lc,
                          v_runcount = Some 2\<rparr>"
  from initial_vars [OF assms(3)] have
    v: "v_auxinfo st0 = []" "v_indexfiles st0 = []" "v_beamer_numslides st0 = slides0"
    by (simp_all add: assms(14))
  have fl1: "final_levels opts 1 (v_logchecker st0) = Inr ?lc"
    using assms(2) by (simp add: final_levels_def)
  have o1: "observe os re opts blg (ws 1) 1 st0 = Inr s1"
    unfolding s1_def
  proof (rule observe_quiet [where msgs = msgs1 and new = new1 and old = old1])
    show "run_bibtex os re opts (ws 1) blg (v_auxinfo st0) = None" by (simp add: v)
    show "run_indices opts (ws 1) (v_indexfiles st0) = None" by (simp add: v)
    show "old1 = old_snapshot os re opts (ws 1) 1 (v_auxinfo st0)" by (simp add: v assms(11))
    show "1 = 1 \<or> recheck_aux opts \<longrightarrow> v_beamer_numslides st0 \<noteq> None \<or> recheck_aux opts \<longrightarrow>
            checktotalslides re (fs_new (ws 1)) (extrafile opts ''aux'') = v_beamer_numslides st0"
      using assms(15) by (simp add: v)
  qed (use assms fl1 in simp_all)
  have f1: "floor_runs opts 1 s1 = s1\<lparr>v_keepgoing := True\<rparr>"
    using assms(1) by (simp add: floor_runs_def)
  have fl2: "final_levels opts 2 (v_logchecker s1) = Inr ?lc"
    using assms(2) by (simp add: final_levels_def s1_def)
  have "observe os re opts blg (ws 2) 2 s1 = Inr s2"
    unfolding s2_def
  proof (rule observe_quiet [where msgs = msgs2 and new = new2 and old = old2, of _ _ _ _ _ s1,
           simplified s1_def loopvars.simps, folded s1_def])
    show "run_bibtex os re opts (ws 2) blg aux1 = None" by (rule assms(19))
    show "run_indices opts (ws 2) idx1 = None" by (rule assms(20))
    show "final_levels opts 2 ?lc = Inr ?lc" using fl2 by (simp add: s1_def)
    show "old2 = old_snapshot os re opts (ws 2) 2 aux1" by (rule assms(28))
    show "(2::int) = 1 \<or> recheck_aux opts \<longrightarrow> v_beamer_numslides st0 \<noteq> None \<or> recheck_aux opts \<longrightarrow>
            checktotalslides re (fs_new (ws 2)) (extrafile opts ''aux'') = v_beamer_numslides st0"
      using assms(30) by (simp add: v)
    show "(2::int) = 1 \<or> recheck_aux opts \<longrightarrow>
            \<not> fst (biboutofdate os (kpse_out (ws 2)) (fs_new (ws 2)) aux2 (fullbuilddir opts)
                     (check_blx_timestamps opts))"
      using assms(30) by simp
  qed (use assms in simp_all)
  then have o2: "observe os re opts blg (ws 2) 2 (floor_runs opts 1 s1) = Inr s2"
    unfolding f1 by (simp add: observe_keepgoing)
  have f2: "floor_runs opts 2 s2 = s2"
    using assms(1) by (simp add: floor_runs_def)
  have u: "[1..4] = [1, 2, 3, 4 :: int]" by code_simp
  have k1: "\<not> v_keepgoing s1" and k2: "\<not> v_keepgoing s2" and r2: "v_runcount s2 = Some 2"
    by (simp_all add: s1_def s2_def)
  have "iterate os re opts blg ws [1..maxruns opts] st0 = Inr s2"
    using o1 o2 f2 k2 by (simp add: assms(2) u and_then_def Let_def f1)
  then have "main os re opts fs0 ws = Inr s2"
    using assms(3) k2 by (simp add: main_def and_then_def)
  with o1 o2 k1 k2 r2 f1 f2 show ?thesis by auto
qed

text \<open>Without the conditions on the changed auxiliary files the claim fails. With the
  paranoid option and four passes at most, pdflatex returns zero on every pass, the log
  never has a warning, an error or a fatal message, no auxiliary file names a
  bibliography, there is no index and no number of slides, and the text of the auxiliary
  file differs from pass to pass: every pass ends with \<open>keepgoing\<close> true, and
  \<open>main\<close> raises the error of errors that persist after 4 runs.\<close>

theorem min_runs_digest_changes_counterexample:
  "min_runs opts_par = 2 \<and> maxruns opts_par = 4
   \<and> list_all (\<lambda>i. returncode (ws_par i) = 0) [1, 2, 3, 4]
   \<and> list_all (\<lambda>i. map_sum id (\<lambda>m. map m [''warning'', ''error'', ''fatal''])
                      (and_then (initial re_plain opts_par fs_tex) (\<lambda>start.
                       and_then (final_levels opts_par i (v_logchecker (snd start))) (\<lambda>lc.
                         search (search_re re_plain) lc (fs_new (ws_par i))
                           (extrafile opts_par ''log''))))
                    = Inr [[], [], []]) [1, 2, 3, 4]
   \<and> list_all (\<lambda>i. map_sum id (list_all (\<lambda>(f, a). bibdata a = []))
                      (new_snapshot posix re_plain opts_par (ws_par i)) = Inr True) [1, 2, 3, 4]
   \<and> list_all (\<lambda>i. getindexfiles re_plain (fs_new (ws_par i)) (extrafile opts_par ''log'')
                    = Inr []) [1, 2, 3, 4]
   \<and> list_all (\<lambda>i. checktotalslides re_plain (fs_new (ws_par i)) (extrafile opts_par ''aux'')
                    = None) [1, 2, 3, 4]
   \<and> checktotalslides re_plain fs_tex (extrafile opts_par ''aux'') = None
   \<and> main posix re_plain opts_par fs_tex ws_par = Inl (ErrorsPersist 4)"
  by code_simp

text \<open>The plain document without the paranoid option: two passes, no error.\<close>

theorem min_runs_floor_witness:
  "map_sum id (\<lambda>st. (v_keepgoing st, v_runcount st))
     (main posix re_plain (opts_plain 2) fs_tex ws_plain) = Inr (False, Some 2)"
proof -
  let ?o = "opts_plain 2"
  define blg where "blg = fst (projr (initial re_plain ?o fs_tex))"
  define st0 where "st0 = snd (projr (initial re_plain ?o fs_tex))"
  define msgs1 where "msgs1 = projr (search (search_re re_plain) (v_logchecker st0)
                                       (fs_new (ws_plain 1)) (extrafile ?o ''log''))"
  define msgs2 where "msgs2 = projr (search (search_re re_plain) (v_logchecker st0)
                                       (fs_new (ws_plain 2)) (extrafile ?o ''log''))"
  define new1 where "new1 = projr (new_snapshot posix re_plain ?o (ws_plain 1))"
  define new2 where "new2 = projr (new_snapshot posix re_plain ?o (ws_plain 2))"
  define old1 where "old1 = old_snapshot posix re_plain ?o (ws_plain 1) 1 []"
  define aux1 where "aux1 = getmodifiedaux old1 new1 (paranoid ?o)"
  define old2 where "old2 = old_snapshot posix re_plain ?o (ws_plain 2) 2 aux1"
  define aux2 where "aux2 = getmodifiedaux old2 new2 (paranoid ?o)"
  define slides0 where "slides0 = checktotalslides re_plain fs_tex (extrafile ?o ''aux'')"
  note d = blg_def st0_def msgs1_def msgs2_def new1_def new2_def old1_def aux1_def old2_def
    aux2_def slides0_def
  have 1: "min_runs ?o = 2" by (simp add: opts_plain_def)
  have 2: "maxruns ?o = 4" by (simp add: opts_plain_def maxruns_def)
  have 3: "initial re_plain ?o fs_tex = Inr (blg, st0)" unfolding d by code_simp
  have 4: "returncode (ws_plain 1) = 0" by code_simp
  have "\<not> isl (search (search_re re_plain) (v_logchecker st0) (fs_new (ws_plain 1))
                   (extrafile ?o ''log''))" unfolding d by code_simp
  then have 5: "search (search_re re_plain) (v_logchecker st0) (fs_new (ws_plain 1))
             (extrafile ?o ''log'') = Inr msgs1" unfolding msgs1_def by simp
  have 6: "msgs1 ''warning'' = []" unfolding d by code_simp
  have 7: "msgs1 ''error'' = []" unfolding d by code_simp
  have 8: "msgs1 ''fatal'' = []" unfolding d by code_simp
  have 9: "new_snapshot posix re_plain ?o (ws_plain 1) = Inr new1" unfolding d by code_simp
  have 10: "getindexfiles re_plain (fs_new (ws_plain 1)) (extrafile ?o ''log'') = Inr []"
    by code_simp
  have 13: "\<not> fst (biboutofdate posix (kpse_out (ws_plain 1)) (fs_new (ws_plain 1)) aux1
                     (fullbuilddir ?o) (check_blx_timestamps ?o))" unfolding d by code_simp
  have 15: "slides0 \<noteq> None \<or> recheck_aux ?o \<longrightarrow>
              checktotalslides re_plain (fs_new (ws_plain 1)) (extrafile ?o ''aux'') = slides0"
    unfolding d by code_simp
  have b1: "list_all (\<lambda>(f, a). bibdata a = []) aux1" unfolding d by code_simp
  then have 16: "\<forall>(f, a) \<in> set aux1. \<forall>prev. map_of old1 f = Some prev \<longrightarrow>
                   bibdata a = [] \<or> bibdata prev = bibdata a"
    by (auto simp: list_all_iff)
  have p: "\<not> paranoid ?o" by (simp add: opts_plain_def)
  have 19: "run_bibtex posix re_plain ?o (ws_plain 2) blg aux1 = None" unfolding d by code_simp
  have 20: "run_indices ?o (ws_plain 2) [] = None" by simp
  have 21: "returncode (ws_plain 2) = 0" by code_simp
  have "\<not> isl (search (search_re re_plain) (v_logchecker st0) (fs_new (ws_plain 2))
                   (extrafile ?o ''log''))" unfolding d by code_simp
  then have 22: "search (search_re re_plain) (v_logchecker st0) (fs_new (ws_plain 2))
             (extrafile ?o ''log'') = Inr msgs2" unfolding msgs2_def by simp
  have 23: "msgs2 ''warning'' = []" unfolding d by code_simp
  have 24: "msgs2 ''error'' = []" unfolding d by code_simp
  have 25: "msgs2 ''fatal'' = []" unfolding d by code_simp
  have 26: "new_snapshot posix re_plain ?o (ws_plain 2) = Inr new2" unfolding d by code_simp
  have 27: "getindexfiles re_plain (fs_new (ws_plain 2)) (extrafile ?o ''log'') = Inr []"
    by code_simp
  have 30: "recheck_aux ?o \<longrightarrow>
              \<not> fst (biboutofdate posix (kpse_out (ws_plain 2)) (fs_new (ws_plain 2)) aux2
                       (fullbuilddir ?o) (check_blx_timestamps ?o))
              \<and> checktotalslides re_plain (fs_new (ws_plain 2)) (extrafile ?o ''aux'') = slides0"
    by (simp add: opts_plain_def)
  have b2: "list_all (\<lambda>(f, a). bibdata a = []) aux2" unfolding d by code_simp
  then have 31: "\<forall>(f, a) \<in> set aux2. \<forall>prev. map_of old2 f = Some prev \<longrightarrow>
                   bibdata a = [] \<or> bibdata prev = bibdata a"
    by (auto simp: list_all_iff)
  from min_runs_floor [where os = posix and re = re_plain and opts = "?o" and ws = ws_plain
      and ?fs0.0 = fs_tex and blg = blg and ?st0.0 = st0 and ?msgs1.0 = msgs1
      and ?msgs2.0 = msgs2 and ?new1.0 = new1 and ?new2.0 = new2 and ?idx1.0 = "[]"
      and ?idx2.0 = "[]" and ?old1.0 = old1 and ?old2.0 = old2 and ?aux1.0 = aux1
      and ?aux2.0 = aux2 and ?slides0.0 = slides0,
      OF 1 2 3 4 5 6 7 8 9 10 old1_def aux1_def 13 slides0_def 15 16 _ _ 19 20 21 22 23 24 25
         26 27 old2_def aux2_def 30 31]
  obtain s2 where "\<not> v_keepgoing s2" and "v_runcount s2 = Some 2"
    and "main posix re_plain ?o fs_tex ws_plain = Inr s2"
    using p by auto
  then show ?thesis by simp
qed

end
